theory Spec2Isabelle
  imports Complex_Main
begin

section \<open>Time and fees\<close>

text \<open>
  A naive \<^verbatim>\<open>datetime\<close> is modelled by its distance from a fixed epoch in
  microseconds, the resolution of Python's \<^verbatim>\<open>datetime\<close>; the difference of
  two of them is the \<^verbatim>\<open>timedelta\<close>. \<^verbatim>\<open>total_seconds() / 3600\<close> is a
  binary floating point number in the source and an exact rational here: the two
  agree on \<^verbatim>\<open>int(h)\<close> and on \<^verbatim>\<open>h % 1 > 0\<close> for every duration a
  parking session can have (they part only beyond some hundreds of years, where a
  microsecond is below the precision of a double).
\<close>

type_synonym datetime = int
type_synonym timedelta = int

definition RATE_PER_HOUR :: int where
  "RATE_PER_HOUR = 500"

definition total_seconds :: "timedelta \<Rightarrow> rat" where
  "total_seconds d = of_int d / 1000000"

text \<open>\<^verbatim>\<open>int(x)\<close> on a float truncates towards zero.\<close>

definition py_trunc :: "rat \<Rightarrow> int" where
  "py_trunc x = (if x < 0 then - \<lfloor>- x\<rfloor> else \<lfloor>x\<rfloor>)"

text \<open>\<^verbatim>\<open>x % 1\<close>: the remainder has the sign of the divisor, so it lies in [0, 1).\<close>

definition py_mod1 :: "rat \<Rightarrow> rat" where
  "py_mod1 x = x - of_int \<lfloor>x\<rfloor>"

text \<open>
  \<^verbatim>\<open>int(hours) + (1 if hours % 1 > 0 else 0)\<close>, the expression shared by
  \<^verbatim>\<open>process_payment\<close> (payment.py, line 236) and
  \<^verbatim>\<open>calculate_payment_amount\<close> (dashboard/database.py, line 19).
\<close>

definition round_up_hours :: "rat \<Rightarrow> int" where
  "round_up_hours h = py_trunc h + (if py_mod1 h > 0 then 1 else 0)"

text \<open>
  payment.py, lines 235 to 239: the hours and the amount due of one unpaid entry,
  computed inline by \<^verbatim>\<open>process_payment\<close> from the entry time and the time of
  settlement.
\<close>

definition hours_spent :: "datetime \<Rightarrow> datetime \<Rightarrow> int" where
  "hours_spent entry exit_t = round_up_hours (total_seconds (exit_t - entry) / 3600)"

definition amount_due :: "datetime \<Rightarrow> datetime \<Rightarrow> int" where
  "amount_due entry exit_t = hours_spent entry exit_t * RATE_PER_HOUR"

text \<open>
  dashboard/database.py, \<^verbatim>\<open>calculate_payment_amount\<close>. A missing payment time
  (\<^verbatim>\<open>None\<close>) gives \<^verbatim>\<open>None\<close>; a \<^verbatim>\<open>datetime\<close> is always truthy. The result
  is the float \<^verbatim>\<open>hours * 500.0\<close>, a rational here.
\<close>

definition calculate_payment_amount :: "datetime \<Rightarrow> datetime option \<Rightarrow> rat option" where
  "calculate_payment_amount entry payment_t =
     (case payment_t of
        None \<Rightarrow> None
      | Some p \<Rightarrow>
          let hours = round_up_hours (total_seconds (p - entry) / 3600);
              hours = max 1 hours
          in Some (of_int hours * 500))"

section \<open>Python strings\<close>

text \<open>
  A \<^verbatim>\<open>str\<close> is a \<^typ>\<open>string\<close>. The character predicates are Python's on the
  ASCII range; characters beyond it are outside the model (the recogniser is run
  with a whitelist of A to Z and 0 to 9, and the serial peer sends ASCII).
\<close>

definition c_isdigit :: "char \<Rightarrow> bool" where
  "c_isdigit c = (48 \<le> (of_char c :: nat) \<and> (of_char c :: nat) \<le> 57)"

definition c_isupper :: "char \<Rightarrow> bool" where
  "c_isupper c = (65 \<le> (of_char c :: nat) \<and> (of_char c :: nat) \<le> 90)"

definition c_islower :: "char \<Rightarrow> bool" where
  "c_islower c = (97 \<le> (of_char c :: nat) \<and> (of_char c :: nat) \<le> 122)"

definition c_isalpha :: "char \<Rightarrow> bool" where
  "c_isalpha c = (c_isupper c \<or> c_islower c)"

text \<open>
  Whitespace for \<^verbatim>\<open>str.strip\<close> and \<^verbatim>\<open>str.isspace\<close>: tab to carriage return, the
  four separators 28 to 31, the space. The number parser of \<^verbatim>\<open>int\<close> skips fewer
  characters around the digits: tab to carriage return and the space only, so that
  \<^verbatim>\<open>int('\x1f1')\<close> is a \<^verbatim>\<open>ValueError\<close> while \<^verbatim>\<open>'\x1f1'.strip()\<close> is \<^verbatim>\<open>'1'\<close>.
\<close>

definition c_isspace :: "char \<Rightarrow> bool" where
  "c_isspace c = ((9 \<le> (of_char c :: nat) \<and> (of_char c :: nat) \<le> 13)
                  \<or> (28 \<le> (of_char c :: nat) \<and> (of_char c :: nat) \<le> 32))"

definition c_isspace_int :: "char \<Rightarrow> bool" where
  "c_isspace_int c = ((9 \<le> (of_char c :: nat) \<and> (of_char c :: nat) \<le> 13)
                      \<or> (of_char c :: nat) = 32)"

definition c_isprintable :: "char \<Rightarrow> bool" where
  "c_isprintable c = (32 \<le> (of_char c :: nat) \<and> (of_char c :: nat) \<le> 126)"

text \<open>\<^verbatim>\<open>s.isalpha()\<close>, \<^verbatim>\<open>s.isdigit()\<close>: every character, and at least one.\<close>

definition str_isalpha :: "string \<Rightarrow> bool" where
  "str_isalpha s = (s \<noteq> [] \<and> list_all c_isalpha s)"

definition str_isdigit :: "string \<Rightarrow> bool" where
  "str_isdigit s = (s \<noteq> [] \<and> list_all c_isdigit s)"

text \<open>\<^verbatim>\<open>s.isupper()\<close>: no lowercase character, and at least one uppercase one.\<close>

definition str_isupper :: "string \<Rightarrow> bool" where
  "str_isupper s = (list_all (\<lambda>c. \<not> c_islower c) s \<and> list_ex c_isupper s)"

definition strip :: "string \<Rightarrow> string" where
  "strip s = rev (dropWhile c_isspace (rev (dropWhile c_isspace s)))"

text \<open>\<^verbatim>\<open>s.find(sub)\<close>: the lowest index where \<^verbatim>\<open>sub\<close> starts, \<open>None\<close> for -1.\<close>

fun str_find :: "string \<Rightarrow> string \<Rightarrow> nat option" where
  "str_find sub [] = (if sub = [] then Some 0 else None)"
| "str_find sub (c # cs) =
     (if take (length sub) (c # cs) = sub then Some 0
      else map_option Suc (str_find sub cs))"

text \<open>\<^verbatim>\<open>sub in s\<close>.\<close>

definition str_contains :: "string \<Rightarrow> string \<Rightarrow> bool" where
  "str_contains sub s = (str_find sub s \<noteq> None)"

definition startswith :: "string \<Rightarrow> string \<Rightarrow> bool" where
  "startswith s p = (take (length p) s = p)"

text \<open>\<^verbatim>\<open>s.split(sep)\<close> for a separator of one character.\<close>

fun split_on :: "char \<Rightarrow> string \<Rightarrow> string list" where
  "split_on sep [] = [[]]"
| "split_on sep (c # cs) =
     (if c = sep then [] # split_on sep cs
      else (case split_on sep cs of
              [] \<Rightarrow> [[c]]
            | p # ps \<Rightarrow> (c # p) # ps))"

text \<open>
  \<^verbatim>\<open>int(s)\<close> in base 10: the characters 9 to 13 and 32 around the number are
  dropped (\<open>int_strip\<close>; the separators 28 to 31 are not, they make the
  \<^verbatim>\<open>ValueError\<close>), one sign is allowed, then digits, where single underscores
  may stand between digits. \<open>None\<close> is the \<^verbatim>\<open>ValueError\<close>. (The interpreter's
  limit on the number of digits, 4300 by default, is not modelled.)
\<close>

definition int_strip :: "string \<Rightarrow> string" where
  "int_strip s = rev (dropWhile c_isspace_int (rev (dropWhile c_isspace_int s)))"

definition digit_val :: "char \<Rightarrow> nat" where
  "digit_val c = of_char c - 48"

fun py_digits :: "nat \<Rightarrow> string \<Rightarrow> nat option" where
  "py_digits acc [] = Some acc"
| "py_digits acc (c # cs) =
     (if c_isdigit c then py_digits (10 * acc + digit_val c) cs
      else if c = CHR ''_'' then
        (case cs of
           [] \<Rightarrow> None
         | d # ds \<Rightarrow> if c_isdigit d then py_digits (10 * acc + digit_val d) ds else None)
      else None)"

definition py_nat :: "string \<Rightarrow> nat option" where
  "py_nat s = (case s of
                 [] \<Rightarrow> None
               | c # cs \<Rightarrow> if c_isdigit c then py_digits (digit_val c) cs else None)"

definition py_int :: "string \<Rightarrow> int option" where
  "py_int s =
     (case int_strip s of
        [] \<Rightarrow> None
      | c # cs \<Rightarrow>
          if c = CHR ''-'' then map_option (\<lambda>n. - int n) (py_nat cs)
          else if c = CHR ''+'' then map_option int (py_nat cs)
          else map_option int (py_nat (c # cs)))"

section \<open>Plate Voter\<close>

text \<open>
  car\_entry.py, lines 175 to 186, and car\_exit.py, lines 191 to 202: the check of
  one recognised text \<^verbatim>\<open>plate_text\<close>. The result is the candidate appended to
  \<^verbatim>\<open>plate_buffer\<close>, or \<open>None\<close> when nothing is appended.
\<close>

definition plate_candidate :: "string \<Rightarrow> string option" where
  "plate_candidate plate_text =
     (case str_find ''RA'' plate_text of
        None \<Rightarrow> None
      | Some start_idx \<Rightarrow>
          let cand = drop start_idx plate_text in
          if 7 \<le> length cand then
            let cand = take 7 cand;
                pre = take 3 cand;
                digits = take 3 (drop 3 cand);
                suffix = [cand ! 6]
            in if str_isalpha pre \<and> str_isupper pre \<and> str_isdigit digits
                  \<and> str_isalpha suffix \<and> str_isupper suffix
               then Some cand else None
          else None)"

text \<open>
  \<^verbatim>\<open>Counter(plate_buffer)\<close>: the counts, keyed in the order of first insertion
  (a \<^verbatim>\<open>dict\<close> keeps insertion order).
\<close>

fun counter_add :: "'a \<Rightarrow> ('a \<times> nat) list \<Rightarrow> ('a \<times> nat) list" where
  "counter_add x [] = [(x, 1)]"
| "counter_add x ((k, n) # kvs) =
     (if k = x then (k, Suc n) # kvs else (k, n) # counter_add x kvs)"

definition Counter :: "'a list \<Rightarrow> ('a \<times> nat) list" where
  "Counter xs = foldl (\<lambda>c x. counter_add x c) [] xs"

text \<open>
  \<^verbatim>\<open>most_common(1)\<close> is \<^verbatim>\<open>heapq.nlargest(1, items, key=count)\<close>, that is
  \<^verbatim>\<open>max(items, key=count)\<close>: the first item, in the order of the items, whose
  count no other exceeds.
\<close>

fun max_first :: "('a \<times> nat) \<Rightarrow> ('a \<times> nat) list \<Rightarrow> ('a \<times> nat)" where
  "max_first best [] = best"
| "max_first best (kv # kvs) = max_first (if snd best < snd kv then kv else best) kvs"

text \<open>\<^verbatim>\<open>Counter(xs).most_common(1)[0][0]\<close>; \<open>None\<close> is the \<^verbatim>\<open>IndexError\<close>.\<close>

definition most_common1 :: "'a list \<Rightarrow> 'a option" where
  "most_common1 xs = (case Counter xs of
                        [] \<Rightarrow> None
                      | kv # kvs \<Rightarrow> Some (fst (max_first kv kvs)))"

text \<open>
  One recognised text through the voter: the new buffer and the plate handed on
  (\<^verbatim>\<open>most_common\<close>), if any. The threshold is 2 in car\_entry.py (line 196) and
  3 in car\_exit.py (line 205); both clear the buffer inside the same branch.
\<close>

definition plate_vote :: "nat \<Rightarrow> string list \<Rightarrow> string \<Rightarrow> string list \<times> string option" where
  "plate_vote threshold plate_buffer plate_text =
     (case plate_candidate plate_text of
        None \<Rightarrow> (plate_buffer, None)
      | Some cand \<Rightarrow>
          let buf = plate_buffer @ [cand] in
          if threshold \<le> length buf then ([], most_common1 buf) else (buf, None))"

definition entry_vote :: "string list \<Rightarrow> string \<Rightarrow> string list \<times> string option" where
  "entry_vote = plate_vote 2"

definition exit_vote :: "string list \<Rightarrow> string \<Rightarrow> string list \<times> string option" where
  "exit_vote = plate_vote 3"

text \<open>The loop over the recognised texts: the buffer at the end and the plates handed on.\<close>

fun vote_run :: "nat \<Rightarrow> string list \<Rightarrow> string list \<Rightarrow> string list \<times> string list" where
  "vote_run threshold buf [] = (buf, [])"
| "vote_run threshold buf (t # ts) =
     (case plate_vote threshold buf t of
        (buf', out) \<Rightarrow>
          (case vote_run threshold buf' ts of
             (b, outs) \<Rightarrow> (b, (case out of None \<Rightarrow> [] | Some m \<Rightarrow> [m]) @ outs)))"

text \<open>
  The claims' words, for comparison with the code. \<open>plate_format\<close> is the pattern
  \<^verbatim>\<open>[A-Z]{3}[0-9]{3}[A-Z]\<close>. \<open>claimed_valid\<close> is the condition of C7: the text
  contains the marker \<^verbatim>\<open>RA\<close> at some index, and the seven characters from
  that index on, the marker being the first two of them as in the plate
  \<^verbatim>\<open>RAB123C\<close>, have that pattern. \<open>first_most_frequent xs m\<close>: no element of \<open>xs\<close> is more frequent than
  \<open>m\<close>, and every element seen before \<open>m\<close> is strictly less frequent.
\<close>

definition plate_format :: "string \<Rightarrow> bool" where
  "plate_format p = (length p = 7 \<and> list_all c_isupper (take 3 p)
                     \<and> list_all c_isdigit (take 3 (drop 3 p)) \<and> list_all c_isupper (drop 6 p))"

definition claimed_valid :: "string \<Rightarrow> bool" where
  "claimed_valid s =
     list_ex (\<lambda>i. take 2 (drop i s) = ''RA'' \<and> plate_format (take 7 (drop i s)))
       [0..<length s]"

definition first_most_frequent :: "'a list \<Rightarrow> 'a \<Rightarrow> bool" where
  "first_most_frequent xs m =
     (m \<in> set xs
      \<and> list_all (\<lambda>x. count_list xs x \<le> count_list xs m) xs
      \<and> list_all (\<lambda>x. count_list xs x < count_list xs m) (takeWhile (\<lambda>x. x \<noteq> m) xs))"

section \<open>The log file and the exit check\<close>

text \<open>
  \<^verbatim>\<open>plates_log.csv\<close> as \<^verbatim>\<open>csv.reader\<close> yields it: a list of rows, the header
  first, each row a list of fields (a blank line is the empty row). \<open>None\<close> stands
  for a file that cannot be opened.
\<close>

type_synonym row = "string list"
type_synonym csv_file = "row list option"

text \<open>
  car\_exit.py, line 132: \<^verbatim>\<open>[row for row in reader if row[0] == plate_number]\<close>.
  \<open>None\<close> is the \<^verbatim>\<open>IndexError\<close> that \<^verbatim>\<open>row[0]\<close> raises on an empty row.
\<close>

fun entries_of :: "string \<Rightarrow> row list \<Rightarrow> row list option" where
  "entries_of plate_number [] = Some []"
| "entries_of plate_number (r # rs) =
     (case r of
        [] \<Rightarrow> None
      | f # _ \<Rightarrow>
          (case entries_of plate_number rs of
             None \<Rightarrow> None
           | Some es \<Rightarrow> Some (if f = plate_number then r # es else es)))"

text \<open>
  car\_exit.py, \<^verbatim>\<open>is_payment_complete\<close>. Every exception (the file does not open,
  \<^verbatim>\<open>next(reader)\<close> on an empty file, an index out of range, a status that is not
  an integer) ends in \<^verbatim>\<open>except Exception: return False\<close>.
\<close>

definition is_payment_complete :: "csv_file \<Rightarrow> string \<Rightarrow> bool" where
  "is_payment_complete csv plate_number =
     (case csv of
        None \<Rightarrow> False
      | Some [] \<Rightarrow> False
      | Some (header # data) \<Rightarrow>
          (case entries_of plate_number data of
             None \<Rightarrow> False
           | Some entries \<Rightarrow>
               if entries = [] then False
               else
                 let latest_entry = last entries in
                 if length latest_entry < 2 then False
                 else (case py_int (latest_entry ! 1) of
                         None \<Rightarrow> False
                       | Some payment_status \<Rightarrow> payment_status = 1)))"

section \<open>The serial link\<close>

text \<open>
  The loops of payment.py poll the port: each iteration reads the clock
  (\<^verbatim>\<open>time.time()\<close>, in seconds) and, when \<^verbatim>\<open>in_waiting\<close> is set, one line. A run
  of a loop is given by the list of what its iterations observe, in order: the
  clock reading and either nothing waiting (\<open>Idle\<close>) or the line read, \<open>None\<close> when
  its bytes do not decode (\<^verbatim>\<open>UnicodeDecodeError\<close>, a \<^verbatim>\<open>ValueError\<close>). The clock
  of a real run passes every deadline after finitely many iterations, so the end
  of the list stands for the first reading past the deadline.
\<close>

datatype rx = Idle | Received "string option"

type_synonym poll = "rat \<times> rx"

text \<open>
  payment.py, lines 91 to 94: \<^verbatim>\<open>plate, balance = [x.strip() for x in line.split(',')]\<close>,
  the balance without its non-printable characters, through \<^verbatim>\<open>int\<close>. \<open>None\<close> is
  the \<^verbatim>\<open>ValueError\<close> of an unpacking that does not find two parts, or of
  \<^verbatim>\<open>int\<close>.
\<close>

definition parse_card :: "string \<Rightarrow> (string \<times> int) option" where
  "parse_card line =
     (case map strip (split_on CHR '','' line) of
        [plate, balance] \<Rightarrow>
          map_option (\<lambda>b. (plate, b)) (py_int (filter c_isprintable balance))
      | _ \<Rightarrow> None)"

text \<open>
  payment.py, \<^verbatim>\<open>read_rfid_card\<close>, lines 82 to 118. The two nested loops are one
  machine with two modes: waiting for the card line (against \<^verbatim>\<open>start_time\<close>), and
  waiting for \<^verbatim>\<open>READY\<close> (against \<^verbatim>\<open>ready_time\<close>, read when the card line was
  parsed; the model takes the clock reading of that iteration). A line that does not
  decode while waiting for \<^verbatim>\<open>READY\<close> is caught by \<^verbatim>\<open>except ValueError\<close>, whose
  \<^verbatim>\<open>continue\<close> resumes the outer loop; while waiting for the card it is caught by
  the outer \<^verbatim>\<open>except Exception\<close>. The result \<open>None\<close> is \<^verbatim>\<open>(None, None)\<close>.
\<close>

datatype mode = Await_card | Await_ready string int rat

fun read_loop :: "rat \<Rightarrow> mode \<Rightarrow> poll list \<Rightarrow> (string \<times> int) option" where
  "read_loop start_time md [] = None"
| "read_loop start_time Await_card ((now, r) # ps) =
     (if \<not> (now - start_time < 5) then None
      else (case r of
              Idle \<Rightarrow> read_loop start_time Await_card ps
            | Received None \<Rightarrow> None
            | Received (Some raw) \<Rightarrow>
                let line = strip raw in
                if CHR '','' \<in> set line \<and> \<not> startswith line ''[''
                then (case parse_card line of
                        None \<Rightarrow> read_loop start_time Await_card ps
                      | Some (plate, balance) \<Rightarrow>
                          read_loop start_time (Await_ready plate balance now) ps)
                else read_loop start_time Await_card ps))"
| "read_loop start_time (Await_ready plate balance ready_time) ((now, r) # ps) =
     (if \<not> (now - ready_time < 2) then None
      else (case r of
              Idle \<Rightarrow> read_loop start_time (Await_ready plate balance ready_time) ps
            | Received None \<Rightarrow> read_loop start_time Await_card ps
            | Received (Some raw) \<Rightarrow>
                if strip raw = ''READY'' then Some (plate, balance)
                else read_loop start_time (Await_ready plate balance ready_time) ps))"

text \<open>\<open>ser_open\<close> is \<^verbatim>\<open>self.ser\<close> being set (line 72).\<close>

definition read_rfid_card :: "bool \<Rightarrow> rat \<Rightarrow> poll list \<Rightarrow> (string \<times> int) option" where
  "read_rfid_card ser_open start_time polls =
     (if \<not> ser_open then None else read_loop start_time Await_card polls)"

text \<open>
  payment.py, \<^verbatim>\<open>write_rfid_card\<close>, lines 134 to 153, after the new balance was
  sent: the answer of the peer decides. A line that does not decode raises inside
  the \<^verbatim>\<open>try\<close> and gives \<^verbatim>\<open>False\<close>.
\<close>

fun write_loop :: "rat \<Rightarrow> poll list \<Rightarrow> bool" where
  "write_loop start_time [] = False"
| "write_loop start_time ((now, r) # ps) =
     (if \<not> (now - start_time < 5) then False
      else (case r of
              Idle \<Rightarrow> write_loop start_time ps
            | Received None \<Rightarrow> False
            | Received (Some raw) \<Rightarrow>
                let response = strip raw in
                if str_contains ''[UPDATED]'' response then True
                else if str_contains ''[ERROR]'' response \<or> str_contains ''[DENIED]'' response
                then False
                else if str_contains ''[TIMEOUT]'' response then False
                else write_loop start_time ps))"

text \<open>
  The words of C6 for comparison: among the observations there is a card line,
  read within 5 seconds of the start, whose balance reads as the integer
  \<open>balance\<close>, and after it a line \<^verbatim>\<open>READY\<close>, read within 2 seconds of the card
  line.
\<close>

definition ready_within :: "rat \<Rightarrow> poll list \<Rightarrow> bool" where
  "ready_within ready_time ps =
     (\<exists>b tj rj c. ps = b @ (tj, Received (Some rj)) # c
        \<and> strip rj = ''READY'' \<and> tj - ready_time < 2)"

definition card_then_ready :: "rat \<Rightarrow> poll list \<Rightarrow> string \<Rightarrow> int \<Rightarrow> bool" where
  "card_then_ready start_time ps plate balance =
     (\<exists>a ti ri rest. ps = a @ (ti, Received (Some ri)) # rest
        \<and> ti - start_time < 5
        \<and> CHR '','' \<in> set (strip ri) \<and> \<not> startswith (strip ri) ''[''
        \<and> parse_card (strip ri) = Some (plate, balance)
        \<and> ready_within ti rest)"

section \<open>The settlement: \<^verbatim>\<open>process_payment\<close>\<close>

text \<open>The table \<^verbatim>\<open>vehicle_logs\<close> of \<^verbatim>\<open>parking.db\<close>, its rows in the order of their ids.\<close>

record vehicle_log =
  log_id :: nat
  plate_number :: string
  entry_time :: datetime
  exit_time :: "datetime option"
  payment_status :: int
  payment_amount :: "rat option"
  payment_time :: "datetime option"
  is_unauthorized_exit :: int

text \<open>
  What \<^verbatim>\<open>process_payment\<close> writes to the port: \<open>Balance_line n\<close> is the line
  \<^verbatim>\<open>f"{n}\n"\<close> of \<^verbatim>\<open>write_rfid_card\<close>, the request to write the balance \<open>n\<close> to
  the tag; \<open>Insufficient_signal\<close> is \<^verbatim>\<open>b'I\n'\<close>.
\<close>

datatype link_msg = Balance_line int | Insufficient_signal

text \<open>
  The state the settlement works on: the log file, the table, what has been sent
  over the link (oldest first) and the busy flag of the processor.
\<close>

record world =
  csv :: csv_file
  db :: "vehicle_log list"
  link_out :: "link_msg list"
  is_processing :: bool

text \<open>
  How a write of the log file ends: all rows written, the file not opened for
  writing (it stays as it was), or an error after some rows (the file was truncated
  on opening and holds the rows written so far). And how the database behaves:
  \<^verbatim>\<open>get_db()\<close> raises, or an \<^verbatim>\<open>UPDATE\<close> or the \<^verbatim>\<open>commit\<close> raises, or neither.
\<close>

datatype io = Io_ok | Io_fails_open | Io_fails_after nat

datatype db_io = Db_ok | Db_connect_fails | Db_update_fails

text \<open>
  What one run of \<^verbatim>\<open>process_payment\<close> meets: the clock (\<^verbatim>\<open>datetime.now()\<close> of
  line 190), the library's \<^verbatim>\<open>strptime\<close> and \<^verbatim>\<open>strftime\<close> for the format
  \<^verbatim>\<open>%Y-%m-%d %H:%M:%S\<close> (\<open>None\<close> is the \<^verbatim>\<open>ValueError\<close>), what the loops of the
  two calls of \<^verbatim>\<open>write_rfid_card\<close> observe, and how the writes end.
  \<open>signal_write\<close> says whether \<^verbatim>\<open>self.ser.write(b'I\n')\<close> of line 259 returns;
  when it raises (the port is closed or gone), the signal is not sent and the
  exception leaves the \<^verbatim>\<open>try\<close> of line 192 for the handler of line 329. A
  write of the balance line that raises is caught inside \<^verbatim>\<open>write_rfid_card\<close>,
  which returns \<^verbatim>\<open>False\<close>: for the stores that is a tag write without
  acknowledgment (no observation in the list), and \<open>link_out\<close> records the line as
  handed to the port.
\<close>

record run_env =
  datetime_now :: datetime
  strptime :: "string \<Rightarrow> datetime option"
  strftime :: "datetime \<Rightarrow> string"
  debit_clock :: rat
  debit_polls :: "poll list"
  restore_clock :: rat
  restore_polls :: "poll list"
  log_write :: io
  rollback_write :: io
  db_state :: db_io
  signal_write :: bool

definition file_write :: "io \<Rightarrow> row list \<Rightarrow> csv_file \<Rightarrow> bool \<times> csv_file" where
  "file_write how rows_out file =
     (case how of
        Io_ok \<Rightarrow> (True, Some rows_out)
      | Io_fails_open \<Rightarrow> (False, file)
      | Io_fails_after k \<Rightarrow> (False, Some (take k rows_out)))"

text \<open>
  The rows read from the file are Python lists, and \<^verbatim>\<open>backup_csv_entries\<close> keeps
  \<^verbatim>\<open>entries.copy()\<close>, a new outer list of the same row objects. So the rows live
  in a store, \<open>heap\<close>, addressed by position; \<^verbatim>\<open>rows\<close>, \<^verbatim>\<open>original_entries\<close>
  and \<^verbatim>\<open>valid_entries\<close> are lists of addresses. At first row \<open>a\<close> of the file
  is at address \<open>a\<close>.

  payment.py, lines 211 to 220: the cleaning loop. \<^verbatim>\<open>row.extend(...)\<close> changes the
  row object in place; \<^verbatim>\<open>row = row[:expected_columns]\<close> makes a new object. The
  second component is \<open>None\<close> when \<^verbatim>\<open>row[0]\<close> raises \<^verbatim>\<open>IndexError\<close> on an
  empty row; the store is returned as it is at that moment.
\<close>

fun clean_rows :: "nat \<Rightarrow> nat list \<Rightarrow> row list \<Rightarrow> nat list \<Rightarrow> row list \<times> nat list option" where
  "clean_rows expected_columns [] heap valid_entries = (heap, Some valid_entries)"
| "clean_rows expected_columns (a # as) heap valid_entries =
     (case heap ! a of
        [] \<Rightarrow> (heap, None)
      | f # fs \<Rightarrow>
          if strip f = [] then clean_rows expected_columns as heap valid_entries
          else if length (f # fs) < expected_columns then
            clean_rows expected_columns as
              (heap[a := (f # fs) @ replicate (expected_columns - length (f # fs)) []])
              (valid_entries @ [a])
          else if expected_columns < length (f # fs) then
            clean_rows expected_columns as
              (heap @ [take expected_columns (f # fs)])
              (valid_entries @ [length heap])
          else clean_rows expected_columns as heap (valid_entries @ [a]))"

text \<open>
  payment.py, lines 227 to 245: the unpaid entries of the plate. An entry is
  \<^verbatim>\<open>(i, amount_due, hours_spent, entry_time)\<close>. The result is \<^verbatim>\<open>found\<close>,
  \<^verbatim>\<open>total_amount_due\<close> and \<^verbatim>\<open>entries_to_update\<close>; \<open>None\<close> is an
  \<^verbatim>\<open>IndexError\<close> (of \<^verbatim>\<open>row[0]\<close>, \<^verbatim>\<open>row[1]\<close> or \<^verbatim>\<open>row[2]\<close>), which
  \<^verbatim>\<open>except ValueError\<close> does not catch. A timestamp that does not parse sets
  \<^verbatim>\<open>found\<close> and adds nothing.
\<close>

type_synonym entry = "nat \<times> int \<times> int \<times> datetime"

fun find_unpaid ::
  "(string \<Rightarrow> datetime option) \<Rightarrow> datetime \<Rightarrow> string \<Rightarrow> row list \<Rightarrow> nat \<Rightarrow> nat list
     \<Rightarrow> (bool \<times> int \<times> entry list) option" where
  "find_unpaid parse exit_t plate heap i [] = Some (False, 0, [])"
| "find_unpaid parse exit_t plate heap i (a # as) =
     (case find_unpaid parse exit_t plate heap (Suc i) as of
        None \<Rightarrow> None
      | Some (found, total_due, es) \<Rightarrow>
          (case heap ! a of
             [] \<Rightarrow> None
           | f # fs \<Rightarrow>
               if f \<noteq> plate then Some (found, total_due, es)
               else (case fs of
                       [] \<Rightarrow> None
                     | status # ts \<Rightarrow>
                         if status \<noteq> ''0'' then Some (found, total_due, es)
                         else (case ts of
                                 [] \<Rightarrow> None
                               | entry_time_str # _ \<Rightarrow>
                                   (case parse entry_time_str of
                                      None \<Rightarrow> Some (True, total_due, es)
                                    | Some et \<Rightarrow>
                                        Some (True, amount_due et exit_t + total_due,
                                              (i, amount_due et exit_t, hours_spent et exit_t, et)
                                                # es))))))"

text \<open>Lines 198 to 245 together, on the rows read from the file (at least two).\<close>

datatype scan_result =
    Scan_raised "row list"
  | Scan_ok "row list" "nat list" bool int "entry list"

definition scan :: "run_env \<Rightarrow> row list \<Rightarrow> string \<Rightarrow> scan_result" where
  "scan env rows plate =
     (case clean_rows (length (rows ! 0)) [1..<length rows] rows [] of
        (heap, None) \<Rightarrow> Scan_raised heap
      | (heap, Some valid_entries) \<Rightarrow>
          (case find_unpaid (strptime env) (datetime_now env) plate heap 0 valid_entries of
             None \<Rightarrow> Scan_raised heap
           | Some (found, total_due, es) \<Rightarrow> Scan_ok heap valid_entries found total_due es))"

text \<open>
  \<^verbatim>\<open>rollback_changes\<close>: the file is rewritten with the rows \<^verbatim>\<open>original_entries\<close>
  refers to, as they are in the store at that moment. An error of the write is
  caught.
\<close>

definition rollback_changes :: "io \<Rightarrow> row list \<Rightarrow> nat list \<Rightarrow> csv_file \<Rightarrow> csv_file" where
  "rollback_changes how heap original_entries file =
     (if original_entries = [] then file
      else snd (file_write how (map ((!) heap) original_entries) file))"

text \<open>
  Lines 275 to 278: the entries are marked in place, field 1 and then field 3. The
  flag is \<open>False\<close> when an index is out of range (a header of fewer than four
  columns); the store is returned as it is at that moment.
\<close>

fun mark_paid :: "string \<Rightarrow> nat list \<Rightarrow> row list \<Rightarrow> entry list \<Rightarrow> row list \<times> bool" where
  "mark_paid stamp valid_entries heap [] = (heap, True)"
| "mark_paid stamp valid_entries heap ((i, amount, hours, et) # es) =
     (let a = valid_entries ! i; r = heap ! a in
      if length r < 2 then (heap, False)
      else if length r < 4 then (heap[a := r[1 := ''1'']], False)
      else mark_paid stamp valid_entries (heap[a := r[1 := ''1'', 3 := stamp]]) es)"

text \<open>Lines 291 to 305: one \<^verbatim>\<open>UPDATE\<close>, on every row of the plate and the entry time.\<close>

definition update_paid :: "string \<Rightarrow> datetime \<Rightarrow> vehicle_log list \<Rightarrow> entry \<Rightarrow> vehicle_log list" where
  "update_paid plate exit_t table e =
     (case e of (i, amount, hours, et) \<Rightarrow>
        map (\<lambda>r. if plate_number r = plate \<and> entry_time r = et
                  then r\<lparr>payment_status := 1, payment_time := Some exit_t,
                         exit_time := Some exit_t, payment_amount := Some (of_int amount)\<rparr>
                  else r) table)"

text \<open>How a run ends, after the messages it prints.\<close>

datatype outcome =
    Busy
  | Processing_failed
  | No_entries
  | No_unpaid
  | Insufficient
  | Card_update_failed
  | Settled
  | Settled_db_failed
  | Records_failed bool

text \<open>
  Lines 317 to 327: the handler of the inner \<^verbatim>\<open>try\<close>. The old balance is sent to
  the tag, then \<^verbatim>\<open>rollback_changes\<close> runs; the flag of the outcome says whether
  the compensating write was acknowledged.
\<close>

definition compensate ::
  "run_env \<Rightarrow> world \<Rightarrow> int \<Rightarrow> row list \<Rightarrow> nat list \<Rightarrow> world \<times> outcome" where
  "compensate env w balance heap original_entries =
     (let w1 = w\<lparr>link_out := link_out w @ [Balance_line balance]\<rparr>;
          restored = write_loop (restore_clock env) (restore_polls env)
      in (w1\<lparr>csv := rollback_changes (rollback_write env) heap original_entries (csv w1)\<rparr>,
          Records_failed restored))"

text \<open>
  Lines 273 to 315, after the tag write was acknowledged. A failure of an
  \<^verbatim>\<open>UPDATE\<close> or of the \<^verbatim>\<open>commit\<close> is caught by the inner handler of line 308,
  which rolls the database back and lets the run go on.
\<close>

definition commit_stores ::
  "run_env \<Rightarrow> world \<Rightarrow> string \<Rightarrow> int \<Rightarrow> row list \<Rightarrow> nat list \<Rightarrow> nat list \<Rightarrow> entry list
     \<Rightarrow> world \<times> outcome" where
  "commit_stores env w plate balance heap original_entries valid_entries es =
     (case mark_paid (strftime env (datetime_now env)) valid_entries heap es of
        (heap1, False) \<Rightarrow> compensate env w balance heap1 original_entries
      | (heap1, True) \<Rightarrow>
          (case file_write (log_write env) (heap1 ! 0 # map ((!) heap1) valid_entries) (csv w) of
             (False, f) \<Rightarrow> compensate env (w\<lparr>csv := f\<rparr>) balance heap1 original_entries
           | (True, f) \<Rightarrow>
               (case db_state env of
                  Db_connect_fails \<Rightarrow> compensate env (w\<lparr>csv := f\<rparr>) balance heap1 original_entries
                | Db_update_fails \<Rightarrow> (w\<lparr>csv := f\<rparr>, Settled_db_failed)
                | Db_ok \<Rightarrow>
                    (w\<lparr>csv := f, db := foldl (update_paid plate (datetime_now env)) (db w) es\<rparr>,
                     Settled))))"

text \<open>
  payment.py, \<^verbatim>\<open>process_payment\<close>. The busy flag is set on entry and cleared by
  \<^verbatim>\<open>finally\<close>, so it is as before at the end of every run that started.
\<close>

definition process_payment :: "run_env \<Rightarrow> world \<Rightarrow> string \<Rightarrow> int \<Rightarrow> world \<times> outcome" where
  "process_payment env w plate balance =
     (if is_processing w then (w, Busy)
      else (case csv w of
              None \<Rightarrow> (w, Processing_failed)
            | Some rows \<Rightarrow>
                if length rows < 2 then (w, No_entries)
                else
                  let original_entries = [0..<length rows] in
                  (case scan env rows plate of
                     Scan_raised heap \<Rightarrow>
                       (w\<lparr>csv := rollback_changes (rollback_write env) heap original_entries
                                    (csv w)\<rparr>,
                        Processing_failed)
                   | Scan_ok heap valid_entries found total_due es \<Rightarrow>
                       if \<not> found then (w, No_unpaid)
                       else if balance < total_due then
                         (if signal_write env
                          then (w\<lparr>link_out := link_out w @ [Insufficient_signal]\<rparr>, Insufficient)
                          else (w\<lparr>csv := rollback_changes (rollback_write env) heap
                                            original_entries (csv w)\<rparr>,
                                Processing_failed))
                       else
                         let new_balance = balance - total_due;
                             w1 = w\<lparr>link_out := link_out w @ [Balance_line new_balance]\<rparr>
                         in if \<not> write_loop (debit_clock env) (debit_polls env)
                            then (w1, Card_update_failed)
                            else commit_stores env w1 plate balance heap original_entries
                                   valid_entries es)))"

text \<open>
  For the examples: the header car\_entry.py writes (line 72), and a run at
  10:05:00, five minutes after an entry at 10:00:00, in which the peer acknowledges
  both tag writes and every write of the log succeeds; \<open>d\<close> is how the database
  behaves.
\<close>

definition CSV_HEADER :: row where
  "CSV_HEADER = [''Plate Number'', ''Payment Status'', ''Timestamp'', ''Payment Timestamp'']"

definition run_at_1005 :: "db_io \<Rightarrow> run_env" where
  "run_at_1005 d =
     \<lparr>datetime_now = 300000000,
      strptime = (\<lambda>s. if s = ''2024-01-01 10:00:00'' then Some 0 else None),
      strftime = (\<lambda>t. ''2024-01-01 10:05:00''),
      debit_clock = 0, debit_polls = [(1, Received (Some ''[UPDATED]''))],
      restore_clock = 2, restore_polls = [(3, Received (Some ''[UPDATED]''))],
      log_write = Io_ok, rollback_write = Io_ok, db_state = d, signal_write = True\<rparr>"

definition log_with :: "row list \<Rightarrow> world" where
  "log_with data = \<lparr>csv = Some (CSV_HEADER # data), db = [], link_out = [], is_processing = False\<rparr>"

section \<open>The Reconciler: \<^verbatim>\<open>sync_csv_to_db\<close>\<close>

text \<open>
  \<^verbatim>\<open>csv.DictReader\<close>: the first row of the file gives the field names, empty rows
  are skipped, and a row is the dictionary \<^verbatim>\<open>dict(zip(fieldnames, row))\<close>, where
  field names beyond the length of the row map to \<^verbatim>\<open>None\<close>. \<open>dict_get\<close> is
  \<^verbatim>\<open>row[key]\<close>: \<open>None\<close> is the \<^verbatim>\<open>KeyError\<close>, \<open>Some None\<close> the value
  \<^verbatim>\<open>None\<close>.
\<close>

definition dict_get :: "row \<Rightarrow> row \<Rightarrow> string \<Rightarrow> string option option" where
  "dict_get fieldnames r key =
     (if key \<in> set (drop (length r) fieldnames) then Some None
      else (case map_of (rev (zip fieldnames r)) key of
              Some v \<Rightarrow> Some (Some v)
            | None \<Rightarrow> None))"

text \<open>
  dashboard/database.py, lines 58 to 62 and the values bound to the statements: what
  one row of the log says, namely plate, entry time, \<^verbatim>\<open>int(row['Payment Status'])\<close>
  and payment time. \<open>None\<close> is any exception: a missing column, a value
  \<^verbatim>\<open>None\<close> where a string is needed (also a plate \<^verbatim>\<open>None\<close>, which no row matches
  and the \<^verbatim>\<open>NOT NULL\<close> column refuses), a timestamp that does not parse, a status
  that is not an integer. None of them depends on the table.
\<close>

type_synonym log_record = "string \<times> datetime \<times> int \<times> datetime option"

definition parse_row :: "(string \<Rightarrow> datetime option) \<Rightarrow> row \<Rightarrow> row \<Rightarrow> log_record option" where
  "parse_row parse fieldnames r =
     (case dict_get fieldnames r ''Timestamp'' of
        Some (Some ts) \<Rightarrow>
          (case parse ts of
             None \<Rightarrow> None
           | Some et \<Rightarrow>
               (case dict_get fieldnames r ''Payment Timestamp'' of
                  None \<Rightarrow> None
                | Some pts \<Rightarrow>
                    (case (if pts = None \<or> pts = Some [] then Some None
                           else map_option Some (parse (the pts))) of
                       None \<Rightarrow> None
                     | Some pt \<Rightarrow>
                         (case dict_get fieldnames r ''Plate Number'' of
                            Some (Some plate) \<Rightarrow>
                              (case dict_get fieldnames r ''Payment Status'' of
                                 Some (Some status) \<Rightarrow>
                                   map_option (\<lambda>n. (plate, et, n, pt)) (py_int status)
                               | _ \<Rightarrow> None)
                          | _ \<Rightarrow> None))))
      | _ \<Rightarrow> None)"

text \<open>
  \<^verbatim>\<open>AUTOINCREMENT\<close>: an id above every id of the table (rows are never deleted).
\<close>

definition new_id :: "vehicle_log list \<Rightarrow> nat" where
  "new_id table = Suc (foldr max (map log_id table) 0)"

text \<open>What a run of the merge does to the table, in order.\<close>

datatype sync_op = Inserted nat | Updated nat

text \<open>
  Lines 65 to 99, for one row of the log. \<^verbatim>\<open>fetchone()\<close> gives the first row of
  the table with the plate and the entry time; the \<^verbatim>\<open>UPDATE\<close> is by its id.
\<close>

definition merge_record :: "log_record \<Rightarrow> vehicle_log list \<Rightarrow> vehicle_log list \<times> sync_op list" where
  "merge_record rec table =
     (case rec of (plate, et, status, pt) \<Rightarrow>
        (case find (\<lambda>r. plate_number r = plate \<and> entry_time r = et) table of
           None \<Rightarrow>
             (table @ [\<lparr>log_id = new_id table, plate_number = plate, entry_time = et,
                         exit_time = None, payment_status = status,
                         payment_amount = calculate_payment_amount et pt,
                         payment_time = pt, is_unauthorized_exit = 0\<rparr>],
              [Inserted (new_id table)])
         | Some existing \<Rightarrow>
             if status = 1 \<and> payment_status existing = 0 then
               (map (\<lambda>r. if log_id r = log_id existing
                          then r\<lparr>payment_status := status, payment_time := pt,
                                 payment_amount := calculate_payment_amount et pt\<rparr>
                          else r) table,
                [Updated (log_id existing)])
             else (table, [])))"

fun sync_rows ::
  "(string \<Rightarrow> datetime option) \<Rightarrow> row \<Rightarrow> vehicle_log list \<Rightarrow> row list
     \<Rightarrow> (vehicle_log list \<times> sync_op list) option" where
  "sync_rows parse fieldnames table [] = Some (table, [])"
| "sync_rows parse fieldnames table (r # rs) =
     (case parse_row parse fieldnames r of
        None \<Rightarrow> None
      | Some rec \<Rightarrow>
          (case merge_record rec table of
             (table1, ops1) \<Rightarrow>
               (case sync_rows parse fieldnames table1 rs of
                  None \<Rightarrow> None
                | Some (table2, ops2) \<Rightarrow> Some (table2, ops1 @ ops2))))"

text \<open>
  dashboard/database.py, \<^verbatim>\<open>sync_csv_to_db\<close>: the table after the run and what the
  run did to it. A missing file returns at once; an exception anywhere rolls the
  transaction back, so the table is as before.
\<close>

definition sync_csv_to_db ::
  "(string \<Rightarrow> datetime option) \<Rightarrow> csv_file \<Rightarrow> vehicle_log list
     \<Rightarrow> vehicle_log list \<times> sync_op list" where
  "sync_csv_to_db parse file table =
     (case file of
        None \<Rightarrow> (table, [])
      | Some [] \<Rightarrow> (table, [])
      | Some (fieldnames # data) \<Rightarrow>
          (case sync_rows parse fieldnames table (filter (\<lambda>r. r \<noteq> []) data) of
             None \<Rightarrow> (table, [])
           | Some (table', ops) \<Rightarrow> (table', ops)))"

text \<open>
  For the proof of C5: the table has a row for the record, and the first such row
  does not call for an update.
\<close>

definition reconciled :: "log_record \<Rightarrow> vehicle_log list \<Rightarrow> bool" where
  "reconciled rec table =
     (case rec of (plate, et, status, pt) \<Rightarrow>
        (case find (\<lambda>r. plate_number r = plate \<and> entry_time r = et) table of
           None \<Rightarrow> False
         | Some existing \<Rightarrow> \<not> (status = 1 \<and> payment_status existing = 0)))"

section \<open>Properties of the fee\<close>

lemma round_up_hours_ceiling:
  assumes "0 \<le> h"
  shows "round_up_hours h = \<lceil>h\<rceil>"
proof (cases "h = of_int \<lfloor>h\<rfloor>")
  case True
  then have "\<lceil>h\<rceil> = \<lfloor>h\<rfloor>"
    by (metis ceiling_of_int)
  with True assms show ?thesis
    by (simp add: round_up_hours_def py_trunc_def py_mod1_def)
next
  case False
  have "of_int \<lfloor>h\<rfloor> \<le> h"
    by (rule of_int_floor_le)
  with False have lt: "of_int \<lfloor>h\<rfloor> < h"
    by linarith
  from False have "\<lceil>h\<rceil> = \<lfloor>h\<rfloor> + 1"
    by (metis ceiling_altdef)
  with lt assms show ?thesis
    by (simp add: round_up_hours_def py_trunc_def py_mod1_def)
qed

lemma hours_of_duration:
  "total_seconds d / 3600 = of_int d / 3600000000"
  by (simp add: total_seconds_def)

lemma hours_spent_ceiling:
  assumes "entry \<le> exit_t"
  shows "hours_spent entry exit_t = \<lceil>(of_int (exit_t - entry) :: rat) / 3600000000\<rceil>"
proof -
  have "0 \<le> total_seconds (exit_t - entry) / 3600"
    using assms by (simp add: total_seconds_def)
  then show ?thesis
    unfolding hours_spent_def by (simp add: round_up_hours_ceiling hours_of_duration)
qed

lemma hours_spent_pos:
  assumes "entry < exit_t"
  shows "1 \<le> hours_spent entry exit_t"
proof -
  have "0 < (of_int (exit_t - entry) :: rat) / 3600000000"
    using assms by simp
  then have "0 < \<lceil>(of_int (exit_t - entry) :: rat) / 3600000000\<rceil>"
    by (simp only: ceiling_less_iff less_ceiling_iff of_int_0)
  with assms show ?thesis
    by (simp add: hours_spent_ceiling)
qed

lemma amount_due_positive_duration:
  assumes "entry < exit_t"
  shows "amount_due entry exit_t =
           max 1 \<lceil>(of_int (exit_t - entry) :: rat) / 3600000000\<rceil> * RATE_PER_HOUR"
proof -
  have "1 \<le> hours_spent entry exit_t"
    using assms by (rule hours_spent_pos)
  moreover have "hours_spent entry exit_t = \<lceil>(of_int (exit_t - entry) :: rat) / 3600000000\<rceil>"
    using assms by (simp add: hours_spent_ceiling)
  ultimately show ?thesis
    by (simp add: amount_due_def)
qed

lemma amount_due_same_instant: "amount_due t t = 0"
  by (simp add: amount_due_def hours_spent_def round_up_hours_def py_trunc_def py_mod1_def
      total_seconds_def)

lemma calculate_payment_amount_same_instant:
  "calculate_payment_amount t (Some t) = Some 500"
  by (simp add: calculate_payment_amount_def round_up_hours_def py_trunc_def py_mod1_def
      total_seconds_def)

lemma calculate_payment_amount_positive_duration:
  assumes "entry < p"
  shows "calculate_payment_amount entry (Some p) = Some (of_int (amount_due entry p))"
proof -
  have "max 1 (hours_spent entry p) = hours_spent entry p"
    using hours_spent_pos [OF assms] by simp
  then show ?thesis
    by (simp add: calculate_payment_amount_def amount_due_def hours_spent_def
        RATE_PER_HOUR_def Let_def)
qed

text \<open>
  C4. The claim: for every entry time not after the time of settlement, the fee
  computed at settlement is \<open>max 1 \<lceil>hours\<rceil>\<close> times the hourly rate, hence at
  least one hour's rate. \<^verbatim>\<open>process_payment\<close> has no floor of one hour: when the
  settlement falls on the very instant of the entry, it charges nothing, while the
  claimed amount is 500. (The dashboard's \<^verbatim>\<open>calculate_payment_amount\<close> applies
  \<^verbatim>\<open>max(1, hours)\<close> to the same expression.)
\<close>

theorem settlement_fee_same_instant:
  "amount_due t t = 0
   \<and> max 1 \<lceil>(of_int (t - t) :: rat) / 3600000000\<rceil> * RATE_PER_HOUR = 500
   \<and> amount_due t t < RATE_PER_HOUR"
  by (simp add: amount_due_same_instant RATE_PER_HOUR_def)

text \<open>
  The part of C4 that \<^verbatim>\<open>process_payment\<close> does meet: for an entry strictly before
  the settlement the amount is \<open>max 1 \<lceil>hours\<rceil>\<close> times the rate, at least the rate
  and a multiple of it.
\<close>

theorem settlement_fee_positive_duration:
  assumes "entry < exit_t"
  shows "amount_due entry exit_t =
           max 1 \<lceil>(of_int (exit_t - entry) :: rat) / 3600000000\<rceil> * RATE_PER_HOUR
         \<and> RATE_PER_HOUR \<le> amount_due entry exit_t
         \<and> RATE_PER_HOUR dvd amount_due entry exit_t"
proof -
  have "1 \<le> hours_spent entry exit_t"
    using assms by (rule hours_spent_pos)
  then have "RATE_PER_HOUR \<le> amount_due entry exit_t"
    by (simp add: amount_due_def RATE_PER_HOUR_def)
  moreover have "RATE_PER_HOUR dvd amount_due entry exit_t"
    by (simp add: amount_due_def)
  ultimately show ?thesis
    using amount_due_positive_duration [OF assms] by simp
qed

theorem settlement_fee_positive_duration_witness:
  "(0::int) < 300000000 \<and> amount_due 0 300000000 = 500"
  using settlement_fee_positive_duration [of 0 300000000]
  by (simp add: RATE_PER_HOUR_def)

text \<open>
  The amount charged by \<^verbatim>\<open>process_payment\<close> never decreases when the settlement
  comes later (entry not after either settlement time).
\<close>

theorem settlement_fee_monotone:
  assumes "entry \<le> t1" and "t1 \<le> t2"
  shows "amount_due entry t1 \<le> amount_due entry t2"
proof -
  have "(of_int (t1 - entry) :: rat) / 3600000000 \<le> of_int (t2 - entry) / 3600000000"
    using assms by (simp add: divide_right_mono)
  then have "\<lceil>(of_int (t1 - entry) :: rat) / 3600000000\<rceil>
               \<le> \<lceil>(of_int (t2 - entry) :: rat) / 3600000000\<rceil>"
    by (rule ceiling_mono)
  then have "hours_spent entry t1 \<le> hours_spent entry t2"
    using assms by (simp add: hours_spent_ceiling)
  then show ?thesis
    by (simp add: amount_due_def RATE_PER_HOUR_def)
qed

theorem settlement_fee_monotone_witness:
  "(0::int) \<le> 3600000000 \<and> (3600000000::int) \<le> 3600000001
   \<and> amount_due 0 3600000000 = 500 \<and> amount_due 0 3600000001 = 1000"
proof -
  have a: "amount_due 0 3600000000 = 500"
    by (simp add: amount_due_def hours_spent_def round_up_hours_def py_trunc_def py_mod1_def
        total_seconds_def RATE_PER_HOUR_def)
  have "\<lfloor>(3600000001::rat) / 3600000000\<rfloor> = 1"
    by (rule floor_unique) simp_all
  then have b: "amount_due 0 3600000001 = 1000"
    by (simp add: amount_due_def hours_spent_def round_up_hours_def py_trunc_def py_mod1_def
        total_seconds_def RATE_PER_HOUR_def)
  from a b settlement_fee_monotone [of 0 3600000000 3600000001] show ?thesis
    by simp
qed

text \<open>
  The dashboard's \<^verbatim>\<open>calculate_payment_amount\<close> does have the floor of one hour:
  for every entry not after the payment it returns \<open>max 1 \<lceil>hours\<rceil>\<close> times 500.
\<close>

theorem dashboard_fee_floor:
  assumes "entry \<le> p"
  shows "calculate_payment_amount entry (Some p) =
           Some (of_int (max 1 \<lceil>(of_int (p - entry) :: rat) / 3600000000\<rceil>) * 500)"
proof -
  have "0 \<le> total_seconds (p - entry) / 3600"
    using assms by (simp add: total_seconds_def)
  then have "round_up_hours (total_seconds (p - entry) / 3600)
               = \<lceil>(of_int (p - entry) :: rat) / 3600000000\<rceil>"
    by (simp add: round_up_hours_ceiling hours_of_duration)
  then show ?thesis
    by (simp add: calculate_payment_amount_def Let_def)
qed

theorem dashboard_fee_floor_witness:
  "(0::int) \<le> 0 \<and> calculate_payment_amount 0 (Some 0) = Some 500"
  using dashboard_fee_floor [of 0 0] by simp

text \<open>
  C9. For an entry strictly before the payment, the amount computed inline by
  \<^verbatim>\<open>process_payment\<close> and the one of \<^verbatim>\<open>calculate_payment_amount\<close> are equal;
  for an entry not after the payment they differ only at duration zero, where
  \<^verbatim>\<open>process_payment\<close> gives 0 and \<^verbatim>\<open>calculate_payment_amount\<close> gives 500.
\<close>

theorem inline_fee_agrees_with_dashboard:
  "(entry < p \<longrightarrow>
      calculate_payment_amount entry (Some p) = Some (of_int (amount_due entry p)))
   \<and> (entry \<le> p \<and> calculate_payment_amount entry (Some p) \<noteq> Some (of_int (amount_due entry p))
        \<longrightarrow> entry = p)
   \<and> amount_due p p = 0
   \<and> calculate_payment_amount p (Some p) = Some 500"
proof -
  have agree: "entry < p \<longrightarrow>
      calculate_payment_amount entry (Some p) = Some (of_int (amount_due entry p))"
    by (simp add: calculate_payment_amount_positive_duration)
  have "entry \<le> p \<and> \<not> entry < p \<longrightarrow> entry = p"
    by linarith
  with agree have only_zero:
    "entry \<le> p \<and> calculate_payment_amount entry (Some p) \<noteq> Some (of_int (amount_due entry p))
       \<longrightarrow> entry = p"
    by blast
  from agree only_zero show ?thesis
    by (simp add: amount_due_same_instant calculate_payment_amount_same_instant)
qed

theorem inline_fee_agrees_with_dashboard_witness:
  "(0::int) < 300000000
   \<and> calculate_payment_amount 0 (Some 300000000) = Some (of_int (amount_due 0 300000000))
   \<and> amount_due 300000000 300000000 = 0
   \<and> calculate_payment_amount 300000000 (Some 300000000) = Some 500"
  using inline_fee_agrees_with_dashboard [of 0 300000000] by simp

section \<open>Properties of the Plate Voter\<close>

lemma counter_add_keys:
  "map fst (counter_add x c) = (if x \<in> fst ` set c then map fst c else map fst c @ [x])"
  by (induction c) (auto split: if_splits)

lemma Counter_snoc: "Counter (xs @ [x]) = counter_add x (Counter xs)"
  by (simp add: Counter_def)

lemma Counter_Nil: "Counter [] = []"
  by (simp add: Counter_def)

lemma Counter_keys_set: "fst ` set (Counter xs) = set xs"
proof (induction xs rule: rev_induct)
  case Nil
  show ?case by (simp add: Counter_Nil)
next
  case (snoc x xs)
  have "set (map fst (counter_add x (Counter xs))) = insert x (fst ` set (Counter xs))"
    by (auto simp: counter_add_keys)
  then show ?case
    using snoc by (simp add: Counter_snoc)
qed

lemma Counter_keys_distinct: "distinct (map fst (Counter xs))"
proof (induction xs rule: rev_induct)
  case Nil
  show ?case by (simp add: Counter_Nil)
next
  case (snoc x xs)
  then show ?case
    by (auto simp: Counter_snoc counter_add_keys)
qed

lemma counter_add_lookup:
  "map_of (counter_add x c) k =
     (if k = x then Some (case map_of c x of None \<Rightarrow> 1 | Some n \<Rightarrow> Suc n) else map_of c k)"
  by (induction c) auto

lemma Counter_count:
  "map_of (Counter xs) k = (if k \<in> set xs then Some (count_list xs k) else None)"
proof (induction xs rule: rev_induct)
  case Nil
  show ?case by (simp add: Counter_Nil)
next
  case (snoc x xs)
  then show ?case
    by (auto simp: Counter_snoc counter_add_lookup)
qed

lemma Counter_entry_count:
  assumes "(k, n) \<in> set (Counter xs)"
  shows "n = count_list xs k"
proof -
  have "map_of (Counter xs) k = Some n"
    using assms Counter_keys_distinct [of xs] by simp
  then show ?thesis
    by (simp add: Counter_count split: if_splits)
qed

lemma takeWhile_neq_absent:
  "x \<notin> set xs \<Longrightarrow> takeWhile (\<lambda>y. y \<noteq> x) (xs @ ys) = xs @ takeWhile (\<lambda>y. y \<noteq> x) ys"
  by (induction xs) auto

lemma takeWhile_neq_present:
  "m \<in> set xs \<Longrightarrow> takeWhile (\<lambda>y. y \<noteq> m) (xs @ ys) = takeWhile (\<lambda>y. y \<noteq> m) xs"
  by (induction xs) auto

lemma Counter_keys_order:
  "map fst (Counter xs) = ks1 @ m # ks2 \<Longrightarrow> set (takeWhile (\<lambda>y. y \<noteq> m) xs) = set ks1"
proof (induction xs arbitrary: ks1 ks2 rule: rev_induct)
  case Nil
  then show ?case by (simp add: Counter_Nil)
next
  case (snoc x xs)
  note IH = snoc.IH and prems = snoc.prems
  have keys: "set (map fst (Counter xs)) = set xs"
    using Counter_keys_set [of xs] by simp
  have new_keys: "map fst (Counter (xs @ [x])) =
      (if x \<in> set xs then map fst (Counter xs) else map fst (Counter xs) @ [x])"
    using Counter_keys_set [of xs] by (simp add: Counter_snoc counter_add_keys)
  show ?case
  proof (cases "x \<in> set xs")
    case True
    with prems new_keys have same: "map fst (Counter xs) = ks1 @ m # ks2"
      by simp
    then have "m \<in> set (map fst (Counter xs))"
      by simp
    then have "m \<in> set xs"
      unfolding keys .
    then have "takeWhile (\<lambda>y. y \<noteq> m) (xs @ [x]) = takeWhile (\<lambda>y. y \<noteq> m) xs"
      by (rule takeWhile_neq_present)
    then show ?thesis
      using IH [OF same] by simp
  next
    case False
    with prems new_keys have app: "map fst (Counter xs) @ [x] = ks1 @ m # ks2"
      by simp
    show ?thesis
    proof (cases ks2 rule: rev_cases)
      case Nil
      with app have k: "map fst (Counter xs) = ks1" and mx: "m = x"
        by simp_all
      have "takeWhile (\<lambda>y. y \<noteq> x) (xs @ [x]) = xs"
        using takeWhile_neq_absent [OF False, of "[x]"] by simp
      with k mx keys show ?thesis
        by simp
    next
      case (snoc ks2' y)
      with app have same: "map fst (Counter xs) = ks1 @ m # ks2'"
        by simp
      then have "m \<in> set (map fst (Counter xs))"
        by simp
      then have "m \<in> set xs"
        unfolding keys .
      then have "takeWhile (\<lambda>y. y \<noteq> m) (xs @ [x]) = takeWhile (\<lambda>y. y \<noteq> m) xs"
        by (rule takeWhile_neq_present)
      then show ?thesis
        using IH [OF same] by simp
    qed
  qed
qed

lemma max_first_split:
  "\<exists>l1 l2. b # kvs = l1 @ max_first b kvs # l2
      \<and> (\<forall>kv\<in>set l1. snd kv < snd (max_first b kvs))
      \<and> (\<forall>kv\<in>set l2. snd kv \<le> snd (max_first b kvs))"
proof (induction kvs arbitrary: b)
  case Nil
  have "[b] = [] @ max_first b [] # []
        \<and> (\<forall>kv\<in>set []. snd kv < snd (max_first b []))
        \<and> (\<forall>kv\<in>set []. snd kv \<le> snd (max_first b []))"
    by simp
  then show ?case by blast
next
  case (Cons kv kvs)
  show ?case
  proof (cases "snd b < snd kv")
    case True
    define r where "r = max_first kv kvs"
    have step: "max_first b (kv # kvs) = r"
      using True by (simp add: r_def)
    from Cons [of kv] obtain l1 l2 where
      sp: "kv # kvs = l1 @ r # l2"
      and lo: "\<forall>e\<in>set l1. snd e < snd r"
      and hi: "\<forall>e\<in>set l2. snd e \<le> snd r"
      unfolding r_def by blast
    have "kv \<in> set (l1 @ r # l2)"
      using sp by (metis list.set_intros(1))
    then have "snd kv \<le> snd r"
      using lo hi by auto
    with True have "snd b < snd r"
      by simp
    with lo have lo': "\<forall>e\<in>set (b # l1). snd e < snd r"
      by simp
    have "b # kv # kvs = (b # l1) @ r # l2"
      using sp by simp
    with lo' hi show ?thesis
      unfolding step by blast
  next
    case False
    define r where "r = max_first b kvs"
    have step: "max_first b (kv # kvs) = r"
      using False by (simp add: r_def)
    from Cons [of b] obtain l1 l2 where
      sp: "b # kvs = l1 @ r # l2"
      and lo: "\<forall>e\<in>set l1. snd e < snd r"
      and hi: "\<forall>e\<in>set l2. snd e \<le> snd r"
      unfolding r_def by blast
    show ?thesis
    proof (cases l1)
      case Nil
      with sp have b: "b = r" and "kvs = l2"
        by simp_all
      then have "b # kv # kvs = [] @ r # (kv # l2)"
        by simp
      moreover have "\<forall>e\<in>set (kv # l2). snd e \<le> snd r"
        using hi False b by auto
      moreover have "\<forall>e\<in>set []. snd e < snd r"
        by simp
      ultimately show ?thesis
        unfolding step by blast
    next
      case (Cons b' l1')
      with sp have b': "b' = b" and rest: "kvs = l1' @ r # l2"
        by simp_all
      with lo Cons have "snd b < snd r"
        by simp
      with False have "snd kv < snd r"
        by simp
      with lo Cons b' have "\<forall>e\<in>set (b # kv # l1'). snd e < snd r"
        by simp
      moreover have "b # kv # kvs = (b # kv # l1') @ r # l2"
        using rest by simp
      ultimately show ?thesis
        using hi unfolding step by blast
    qed
  qed
qed

lemma most_common1_first_most_frequent:
  assumes "most_common1 xs = Some m"
  shows "first_most_frequent xs m"
proof -
  from assms obtain kv kvs where c: "Counter xs = kv # kvs" and m: "m = fst (max_first kv kvs)"
    by (auto simp: most_common1_def split: list.splits)
  obtain l1 l2 where sp: "kv # kvs = l1 @ max_first kv kvs # l2"
    and lo: "\<forall>e\<in>set l1. snd e < snd (max_first kv kvs)"
    and hi: "\<forall>e\<in>set l2. snd e \<le> snd (max_first kv kvs)"
    using max_first_split [of kv kvs] by blast
  define r where "r = max_first kv kvs"
  have cs: "Counter xs = l1 @ r # l2"
    using c sp by (simp add: r_def)
  have r_in: "(m, snd r) \<in> set (Counter xs)"
    using cs m by (simp add: r_def)
  then have cnt: "snd r = count_list xs m"
    by (rule Counter_entry_count)
  have m_in: "m \<in> set xs"
    using r_in Counter_keys_set [of xs] by force
  have all_le: "count_list xs x \<le> count_list xs m" if "x \<in> set xs" for x
  proof -
    from that have "x \<in> fst ` set (Counter xs)"
      by (simp add: Counter_keys_set)
    then obtain n where e: "(x, n) \<in> set (Counter xs)"
      by auto
    then have n: "n = count_list xs x"
      by (rule Counter_entry_count)
    from e cs have "(x, n) \<in> set l1 \<or> (x, n) = r \<or> (x, n) \<in> set l2"
      by auto
    moreover have "n \<le> snd r" if "(x, n) \<in> set l1"
      using that lo by (force simp: r_def)
    moreover have "n \<le> snd r" if "(x, n) = r"
      using that by (metis order_refl snd_conv)
    moreover have "n \<le> snd r" if "(x, n) \<in> set l2"
      using that hi by (force simp: r_def)
    ultimately have "n \<le> snd r"
      by blast
    with n cnt show ?thesis by simp
  qed
  have keys: "map fst (Counter xs) = map fst l1 @ m # map fst l2"
    using cs m by (simp add: r_def)
  have before: "count_list xs x < count_list xs m"
    if "x \<in> set (takeWhile (\<lambda>y. y \<noteq> m) xs)" for x
  proof -
    from that Counter_keys_order [OF keys] have "x \<in> set (map fst l1)"
      by simp
    then obtain n where e: "(x, n) \<in> set l1"
      by auto
    then have "(x, n) \<in> set (Counter xs)"
      using cs by simp
    then have n: "n = count_list xs x"
      by (rule Counter_entry_count)
    from e lo have "n < snd r"
      by (auto simp: r_def)
    with n cnt show ?thesis by simp
  qed
  from m_in all_le before show ?thesis
    by (simp add: first_most_frequent_def list_all_iff)
qed

lemma most_common1_Some:
  assumes "xs \<noteq> []"
  shows "\<exists>m. most_common1 xs = Some m"
proof -
  have "fst ` set (Counter xs) = set xs"
    by (rule Counter_keys_set)
  with assms have "Counter xs \<noteq> []"
    by auto
  then show ?thesis
    by (auto simp: most_common1_def split: list.splits)
qed

lemma seen_before:
  assumes "m \<in> set xs" and "m' \<in> set xs" and "m \<noteq> m'"
  shows "m \<in> set (takeWhile (\<lambda>x. x \<noteq> m') xs) \<or> m' \<in> set (takeWhile (\<lambda>x. x \<noteq> m) xs)"
  using assms by (induction xs) auto

lemma first_most_frequent_unique:
  assumes "first_most_frequent xs m" and "first_most_frequent xs m'"
  shows "m = m'"
proof (rule ccontr)
  assume ne: "m \<noteq> m'"
  from assms have in1: "m \<in> set xs" and in2: "m' \<in> set xs"
    by (simp_all add: first_most_frequent_def)
  from assms in1 in2 have le1: "count_list xs m' \<le> count_list xs m"
    and le2: "count_list xs m \<le> count_list xs m'"
    by (simp_all add: first_most_frequent_def list_all_iff)
  from seen_before [OF in1 in2 ne] show False
  proof
    assume "m \<in> set (takeWhile (\<lambda>x. x \<noteq> m') xs)"
    with assms(2) have "count_list xs m < count_list xs m'"
      by (simp add: first_most_frequent_def list_all_iff)
    with le1 show False by simp
  next
    assume "m' \<in> set (takeWhile (\<lambda>x. x \<noteq> m) xs)"
    with assms(1) have "count_list xs m' < count_list xs m"
      by (simp add: first_most_frequent_def list_all_iff)
    with le2 show False by simp
  qed
qed

lemma str_find_Some_iff:
  "str_find sub s = Some i \<longleftrightarrow>
     (i \<le> length s \<and> take (length sub) (drop i s) = sub
      \<and> (\<forall>j<i. take (length sub) (drop j s) \<noteq> sub))"
proof (induction s arbitrary: i)
  case Nil
  show ?case by auto
next
  case (Cons c cs)
  show ?case
  proof (cases "take (length sub) (c # cs) = sub")
    case True
    show ?thesis
    proof (cases i)
      case 0
      with True show ?thesis by simp
    next
      case (Suc i')
      have "\<not> (\<forall>j<Suc i'. take (length sub) (drop j (c # cs)) \<noteq> sub)"
        using True by (metis drop0 zero_less_Suc)
      with True Suc show ?thesis by simp
    qed
  next
    case False
    show ?thesis
    proof (cases i)
      case 0
      with False show ?thesis by simp
    next
      case (Suc i')
      have "(\<forall>j<Suc i'. take (length sub) (drop j (c # cs)) \<noteq> sub)
              \<longleftrightarrow> (\<forall>j<i'. take (length sub) (drop j cs) \<noteq> sub)"
        using False by (simp add: All_less_Suc2)
      with False Suc Cons [of i'] show ?thesis by simp
    qed
  qed
qed

lemma upper_not_lower: "c_isupper c \<Longrightarrow> \<not> c_islower c"
  by (simp add: c_isupper_def c_islower_def)

lemma isalpha_isupper_iff:
  assumes "s \<noteq> []"
  shows "(str_isalpha s \<and> str_isupper s) \<longleftrightarrow> list_all c_isupper s"
proof
  assume a: "str_isalpha s \<and> str_isupper s"
  then have "\<forall>c\<in>set s. c_isalpha c \<and> \<not> c_islower c"
    by (simp add: str_isalpha_def str_isupper_def list_all_iff)
  then show "list_all c_isupper s"
    unfolding list_all_iff c_isalpha_def by blast
next
  assume u: "list_all c_isupper s"
  from assms obtain c cs where "s = c # cs"
    by (cases s) auto
  with u have "list_ex c_isupper s"
    by simp
  with u assms show "str_isalpha s \<and> str_isupper s"
    by (auto simp: str_isalpha_def str_isupper_def list_all_iff c_isalpha_def
        dest: upper_not_lower)
qed

lemma python_checks_are_plate_format:
  assumes "length cand = 7"
  shows "(str_isalpha (take 3 cand) \<and> str_isupper (take 3 cand) \<and> str_isdigit (take 3 (drop 3 cand))
          \<and> str_isalpha [cand ! 6] \<and> str_isupper [cand ! 6]) \<longleftrightarrow> plate_format cand"
proof -
  have d6: "drop 6 cand = [cand ! 6]"
    using assms Cons_nth_drop_Suc [of 6 cand] by simp
  have n3: "take 3 cand \<noteq> []" and nd: "take 3 (drop 3 cand) \<noteq> []"
    using assms by auto
  have "(str_isalpha (take 3 cand) \<and> str_isupper (take 3 cand)) = list_all c_isupper (take 3 cand)"
    using n3 by (rule isalpha_isupper_iff)
  moreover have "(str_isalpha [cand ! 6] \<and> str_isupper [cand ! 6]) = list_all c_isupper [cand ! 6]"
    by (rule isalpha_isupper_iff) simp
  moreover have "str_isdigit (take 3 (drop 3 cand)) = list_all c_isdigit (take 3 (drop 3 cand))"
    using nd by (simp add: str_isdigit_def)
  ultimately show ?thesis
    using assms d6 by (auto simp: plate_format_def)
qed

lemma plate_candidate_Some_iff:
  "plate_candidate s = Some c \<longleftrightarrow>
     (\<exists>i. str_find ''RA'' s = Some i \<and> c = take 7 (drop i s) \<and> plate_format c)"
proof (cases "str_find ''RA'' s")
  case None
  then show ?thesis by (simp add: plate_candidate_def)
next
  case (Some i)
  show ?thesis
  proof (cases "7 \<le> length (drop i s)")
    case False
    then have "\<not> plate_format (take 7 (drop i s))"
      by (simp add: plate_format_def)
    with Some False show ?thesis
      by (auto simp: plate_candidate_def)
  next
    case True
    then have len: "length (take 7 (drop i s)) = 7"
      by simp
    from python_checks_are_plate_format [OF len] Some True show ?thesis
      by (auto simp: plate_candidate_def Let_def)
  qed
qed

text \<open>
  C7, as amended. A recognised text is accepted as a candidate exactly when it
  contains the marker \<^verbatim>\<open>RA\<close> and the seven characters that start at the first
  occurrence of the marker (the marker being the first two of them) match
  \<^verbatim>\<open>[A-Z]{3}[0-9]{3}[A-Z]\<close>; the candidate is those seven characters. The index
  \<^verbatim>\<open>find\<close> returns is the lowest one where the marker starts. A text that is not
  accepted leaves the buffer as it was and hands nothing on.
\<close>

theorem plate_candidate_first_marker:
  "(plate_candidate s = Some c \<longleftrightarrow>
      (\<exists>i. str_find ''RA'' s = Some i \<and> c = take 7 (drop i s) \<and> plate_format c))
   \<and> (str_find ''RA'' s = Some i \<longleftrightarrow>
        (i \<le> length s \<and> take 2 (drop i s) = ''RA'' \<and> (\<forall>j<i. take 2 (drop j s) \<noteq> ''RA'')))
   \<and> (plate_candidate s = None \<longrightarrow> plate_vote threshold plate_buffer s = (plate_buffer, None))"
  using str_find_Some_iff [of "''RA''" s i]
  by (simp add: plate_candidate_Some_iff plate_vote_def numeral_2_eq_2)

theorem plate_candidate_first_marker_witness:
  "plate_candidate ''XRAB123C9'' = Some ''RAB123C''
   \<and> str_find ''RA'' ''XRAB123C9'' = Some 1
   \<and> plate_format ''RAB123C''
   \<and> plate_candidate ''RAB12'' = None
   \<and> plate_vote 2 [''RAX999Z''] ''RAB12'' = ([''RAX999Z''], None)"
proof -
  have a: "plate_candidate ''XRAB123C9'' = Some ''RAB123C''"
    by code_simp
  have b: "plate_candidate ''RAB12'' = None"
    by code_simp
  have c: "str_find ''RA'' ''XRAB123C9'' = Some 1"
    by code_simp
  from plate_candidate_first_marker [of "''RAB12''" "''x''" 0 2 "[''RAX999Z'']"] b
  have v: "plate_vote 2 [''RAX999Z''] ''RAB12'' = ([''RAX999Z''], None)"
    by simp
  from plate_candidate_first_marker [of "''XRAB123C9''" "''RAB123C''" 1 2 "[]"] a c
  have "plate_format ''RAB123C''"
    by auto
  with a b c v show ?thesis by simp
qed

text \<open>
  C7 as stated fails on a text with more than one marker: only the first
  occurrence is tried. \<^verbatim>\<open>RAXRAB123C\<close> contains the marker at index 3, and the
  seven characters from there on are \<^verbatim>\<open>RAB123C\<close>; the code looks at the marker
  at index 0, finds \<^verbatim>\<open>RAXRAB1\<close> and rejects the text.
\<close>

theorem later_marker_counterexample:
  "plate_candidate ''RAXRAB123C'' = None
   \<and> claimed_valid ''RAXRAB123C''
   \<and> str_find ''RA'' ''RAXRAB123C'' = Some 0
   \<and> take 7 (drop 3 ''RAXRAB123C'') = ''RAB123C''"
  by code_simp

text \<open>
  The half of C7 that holds as stated: a text that is accepted contains the marker
  at an index from which the seven characters have the pattern.
\<close>

theorem accepted_text_meets_claimed_condition:
  assumes "plate_candidate s = Some c"
  shows "claimed_valid s"
proof -
  from assms obtain i where f: "str_find ''RA'' s = Some i" and c: "c = take 7 (drop i s)"
      and p: "plate_format c"
    by (auto simp: plate_candidate_Some_iff)
  from f have m: "take 2 (drop i s) = ''RA''" and le: "i \<le> length s"
    using str_find_Some_iff [of "''RA''" s i] by (simp_all add: numeral_2_eq_2)
  from m have "i \<noteq> length s"
    by auto
  with le have "i < length s"
    by simp
  with m p c show ?thesis
    by (auto simp: claimed_valid_def list_ex_iff)
qed

theorem accepted_text_meets_claimed_condition_witness:
  "plate_candidate ''XRAB123C9'' = Some ''RAB123C'' \<and> claimed_valid ''XRAB123C9''"
proof -
  have a: "plate_candidate ''XRAB123C9'' = Some ''RAB123C''"
    by code_simp
  from accepted_text_meets_claimed_condition [OF a] a show ?thesis
    by simp
qed

lemma most_common1_iff:
  assumes "xs \<noteq> []"
  shows "most_common1 xs = Some m \<longleftrightarrow> first_most_frequent xs m"
proof
  assume "most_common1 xs = Some m"
  then show "first_most_frequent xs m"
    by (rule most_common1_first_most_frequent)
next
  assume f: "first_most_frequent xs m"
  from most_common1_Some [OF assms] obtain m' where m': "most_common1 xs = Some m'"
    by blast
  then have "first_most_frequent xs m'"
    by (rule most_common1_first_most_frequent)
  with f have "m = m'"
    by (rule first_most_frequent_unique)
  with m' show "most_common1 xs = Some m"
    by simp
qed

lemma plate_vote_valid:
  assumes "plate_candidate t = Some c"
  shows "plate_vote threshold buf t =
           (if threshold \<le> Suc (length buf) then ([], most_common1 (buf @ [c]))
            else (buf @ [c], None))"
  using assms by (simp add: plate_vote_def Let_def)

lemma plate_vote_buffer_bound:
  assumes "0 < threshold" and "length buf < threshold"
  shows "length (fst (plate_vote threshold buf t)) < threshold"
  using assms by (auto simp: plate_vote_def Let_def split: option.splits)

lemma vote_run_buffer_bound:
  assumes "0 < threshold" and "length buf < threshold"
  shows "length (fst (vote_run threshold buf ts)) < threshold"
  using assms
proof (induction ts arbitrary: buf)
  case Nil
  then show ?case by simp
next
  case (Cons t ts)
  obtain buf' out where pv: "plate_vote threshold buf t = (buf', out)"
    by (cases "plate_vote threshold buf t")
  with plate_vote_buffer_bound [OF Cons.prems, of t] have "length buf' < threshold"
    by simp
  from Cons.IH [OF Cons.prems(1) this] pv show ?case
    by (cases "vote_run threshold buf' ts") simp
qed

text \<open>
  C8. For a valid candidate and a buffer below the threshold (which every buffer
  reached from the empty one is, \<open>vote_run_buffer_bound\<close>), the voter hands a plate
  on exactly when the buffer reaches the threshold, 2 on the entry path and 3 on
  the exit path, and clears the buffer; otherwise the candidate is kept and nothing
  is handed on. The plate handed on is the one no other is more frequent than and
  that was seen before every other plate as frequent.
\<close>

theorem voter_emits_at_threshold:
  assumes "plate_candidate t = Some c"
  shows "(length buf < 2 \<longrightarrow>
            entry_vote buf t = (if length buf = 1 then ([], most_common1 (buf @ [c]))
                                else (buf @ [c], None)))
       \<and> (length buf < 3 \<longrightarrow>
            exit_vote buf t = (if length buf = 2 then ([], most_common1 (buf @ [c]))
                               else (buf @ [c], None)))
       \<and> (\<forall>m. most_common1 (buf @ [c]) = Some m \<longleftrightarrow> first_most_frequent (buf @ [c]) m)
       \<and> (\<exists>m. most_common1 (buf @ [c]) = Some m)"
proof -
  have ne: "buf @ [c] \<noteq> []"
    by simp
  have "length buf < 2 \<longrightarrow>
          entry_vote buf t = (if length buf = 1 then ([], most_common1 (buf @ [c]))
                              else (buf @ [c], None))"
    using plate_vote_valid [OF assms, of 2 buf] by (auto simp: entry_vote_def)
  moreover have "length buf < 3 \<longrightarrow>
          exit_vote buf t = (if length buf = 2 then ([], most_common1 (buf @ [c]))
                             else (buf @ [c], None))"
    using plate_vote_valid [OF assms, of 3 buf] by (auto simp: exit_vote_def)
  moreover have "\<forall>m. most_common1 (buf @ [c]) = Some m \<longleftrightarrow> first_most_frequent (buf @ [c]) m"
    using most_common1_iff [OF ne] by blast
  moreover have "\<exists>m. most_common1 (buf @ [c]) = Some m"
    using most_common1_Some [OF ne] .
  ultimately show ?thesis
    by blast
qed

theorem voter_emits_at_threshold_witness:
  "plate_candidate ''RAB123C'' = Some ''RAB123C''
   \<and> entry_vote [] ''RAB123C'' = ([''RAB123C''], None)
   \<and> entry_vote [''RAB123C''] ''RAB123C'' = ([], Some ''RAB123C'')
   \<and> exit_vote [''RAX999Z'', ''RAB123C''] ''RAB123C'' = ([], Some ''RAB123C'')
   \<and> first_most_frequent [''RAX999Z'', ''RAB123C'', ''RAB123C''] ''RAB123C''"
proof -
  have c: "plate_candidate ''RAB123C'' = Some ''RAB123C''"
    by code_simp
  have m1: "most_common1 ([''RAB123C''] @ [''RAB123C'']) = Some ''RAB123C''"
    by code_simp
  have m2: "most_common1 ([''RAX999Z'', ''RAB123C''] @ [''RAB123C'']) = Some ''RAB123C''"
    by code_simp
  from voter_emits_at_threshold [OF c, of "[]"]
  have a: "entry_vote [] ''RAB123C'' = ([''RAB123C''], None)"
    by simp
  from voter_emits_at_threshold [OF c, of "[''RAB123C'']"] m1
  have b: "entry_vote [''RAB123C''] ''RAB123C'' = ([], Some ''RAB123C'')"
    by simp
  from voter_emits_at_threshold [OF c, of "[''RAX999Z'', ''RAB123C'']"] m2
  have d: "exit_vote [''RAX999Z'', ''RAB123C''] ''RAB123C'' = ([], Some ''RAB123C'')"
    and e: "first_most_frequent [''RAX999Z'', ''RAB123C'', ''RAB123C''] ''RAB123C''"
    by simp_all
  from c a b d e show ?thesis
    by simp
qed

text \<open>The example of the specification: the third text starts the next buffer.\<close>

lemma voter_spec_example:
  "vote_run 2 [] [''RAB123C'', ''RAB123C'', ''RAX999Z''] = ([''RAX999Z''], [''RAB123C''])"
  by code_simp

section \<open>Properties of the exit check\<close>





lemma int_rejects_separator:
  "py_int [CHR 0x1F, CHR ''1''] = None \<and> strip [CHR 0x1F, CHR ''1''] = ''1''
   \<and> py_int '' 1'' = Some 1
   \<and> \<not> is_payment_complete (Some [CSV_HEADER, [''RAB123C'', [CHR 0x1F, CHR ''1'']]]) ''RAB123C''"
  by code_simp


section \<open>Properties of the tag read\<close>

lemma ready_within_Cons:
  "ready_within rt ps \<Longrightarrow> ready_within rt (x # ps)"
  unfolding ready_within_def by (metis append_Cons)

lemma card_then_ready_Cons:
  "card_then_ready st ps plate bal \<Longrightarrow> card_then_ready st (x # ps) plate bal"
  unfolding card_then_ready_def by (metis append_Cons)

lemma ready_within_here:
  "strip raw = ''READY'' \<Longrightarrow> now - rt < 2 \<Longrightarrow> ready_within rt ((now, Received (Some raw)) # ps)"
  unfolding ready_within_def by (metis append_Nil)

lemma card_then_ready_here:
  "now - st < 5 \<Longrightarrow> CHR '','' \<in> set (strip raw) \<Longrightarrow> \<not> startswith (strip raw) ''[''
    \<Longrightarrow> parse_card (strip raw) = Some (plate, bal) \<Longrightarrow> ready_within now ps
    \<Longrightarrow> card_then_ready st ((now, Received (Some raw)) # ps) plate bal"
  unfolding card_then_ready_def by (metis append_Nil)

lemma read_loop_accepts_only:
  "read_loop st md ps = Some (plate, bal) \<Longrightarrow>
     (case md of
        Await_card \<Rightarrow> card_then_ready st ps plate bal
      | Await_ready p b rt \<Rightarrow>
          (p = plate \<and> b = bal \<and> ready_within rt ps) \<or> card_then_ready st ps plate bal)"
proof (induction ps arbitrary: md)
  case Nil
  then show ?case by simp
next
  case (Cons x ps)
  obtain now r where x: "x = (now, r)" by (cases x)
  have IH_card: "card_then_ready st (x # ps) plate bal"
    if "read_loop st Await_card ps = Some (plate, bal)"
    using Cons.IH [OF that] by (simp add: card_then_ready_Cons)
  have IH_ready: "(p = plate \<and> b = bal \<and> ready_within rt (x # ps))
                    \<or> card_then_ready st (x # ps) plate bal"
    if "read_loop st (Await_ready p b rt) ps = Some (plate, bal)" for p b rt
    using Cons.IH [OF that] by (auto intro: card_then_ready_Cons ready_within_Cons)
  show ?case
  proof (cases md)
    case Await_card
    have "card_then_ready st (x # ps) plate bal"
    proof (cases r)
      case Idle
      with Cons.prems Await_card x have "read_loop st Await_card ps = Some (plate, bal)"
        by (simp split: if_splits)
      then show ?thesis by (rule IH_card)
    next
      case (Received o_raw)
      show ?thesis
      proof (cases o_raw)
        case None
        with Cons.prems Await_card x Received show ?thesis
          by (simp split: if_splits)
      next
        case (Some raw)
        from Cons.prems Await_card x Received Some have t: "now - st < 5"
          by (simp split: if_splits)
        show ?thesis
        proof (cases "CHR '','' \<in> set (strip raw) \<and> \<not> startswith (strip raw) ''[''")
          case False
          with Cons.prems Await_card x Received Some t
          have "read_loop st Await_card ps = Some (plate, bal)"
            by (auto simp: Let_def)
          then show ?thesis by (rule IH_card)
        next
          case True
          show ?thesis
          proof (cases "parse_card (strip raw)")
            case None
            with Cons.prems Await_card x Received Some t True
            have "read_loop st Await_card ps = Some (plate, bal)"
              by (simp add: Let_def)
            then show ?thesis by (rule IH_card)
          next
            case (Some pb)
            obtain p b where pb: "pb = (p, b)" by (cases pb)
            from Cons.prems Await_card x Received \<open>o_raw = Some raw\<close> t True Some pb
            have "read_loop st (Await_ready p b now) ps = Some (plate, bal)"
              by (simp add: Let_def)
            from Cons.IH [OF this]
            have "(p = plate \<and> b = bal \<and> ready_within now ps) \<or> card_then_ready st ps plate bal"
              by simp
            then show ?thesis
            proof
              assume "p = plate \<and> b = bal \<and> ready_within now ps"
              with t True Some pb
              have "card_then_ready st ((now, Received (Some raw)) # ps) plate bal"
                by (auto intro: card_then_ready_here)
              with x Received \<open>o_raw = Some raw\<close> show ?thesis by simp
            next
              assume "card_then_ready st ps plate bal"
              then show ?thesis by (rule card_then_ready_Cons)
            qed
          qed
        qed
      qed
    qed
    with Await_card show ?thesis by simp
  next
    case (Await_ready p b rt)
    from Cons.prems Await_ready x have t: "now - rt < 2"
      by (simp split: if_splits)
    have "(p = plate \<and> b = bal \<and> ready_within rt (x # ps))
            \<or> card_then_ready st (x # ps) plate bal"
    proof (cases r)
      case Idle
      with Cons.prems Await_ready x t
      have "read_loop st (Await_ready p b rt) ps = Some (plate, bal)"
        by simp
      then show ?thesis by (rule IH_ready)
    next
      case (Received o_raw)
      show ?thesis
      proof (cases o_raw)
        case None
        with Cons.prems Await_ready x t Received
        have "read_loop st Await_card ps = Some (plate, bal)"
          by simp
        then show ?thesis using IH_card by blast
      next
        case (Some raw)
        show ?thesis
        proof (cases "strip raw = ''READY''")
          case True
          with Cons.prems Await_ready x t Received Some have "p = plate" and "b = bal"
            by simp_all
          moreover from True t have "ready_within rt ((now, Received (Some raw)) # ps)"
            by (rule ready_within_here)
          ultimately show ?thesis
            using x Received Some by simp
        next
          case False
          with Cons.prems Await_ready x t Received Some
          have "read_loop st (Await_ready p b rt) ps = Some (plate, bal)"
            by simp
          then show ?thesis by (rule IH_ready)
        qed
      qed
    qed
    with Await_ready show ?thesis by simp
  qed
qed

text \<open>
  C6, as amended. \<^verbatim>\<open>read_rfid_card\<close> returns a plate and a balance only when the
  port is open and, among the lines read, there is a card line \<^verbatim>\<open>plate,balance\<close>
  (a comma, no leading bracket, two parts) read within 5 seconds of the start,
  whose balance without its non-printable characters reads as the integer
  returned, and after it a line \<^verbatim>\<open>READY\<close> read within 2 seconds of the card
  line. In every other case the result is \<^verbatim>\<open>(None, None)\<close>. The sign of the
  balance is not checked.
\<close>

theorem read_accepts_only_card_then_ready:
  assumes "read_rfid_card ser_open start_time polls = Some (plate, balance)"
  shows "ser_open \<and> card_then_ready start_time polls plate balance"
proof -
  from assms have c: "ser_open" and r: "read_loop start_time Await_card polls = Some (plate, balance)"
    by (simp_all add: read_rfid_card_def split: if_splits)
  from read_loop_accepts_only [OF r] c show ?thesis
    by simp
qed

theorem read_accepts_only_card_then_ready_witness:
  "read_rfid_card True 0
     [(0, Idle), (1, Received (Some ''[DEBUG] x,y'')), (2, Received (Some ''RAB123C, 1000'')),
      (3, Received (Some ''READY''))] = Some (''RAB123C'', 1000)
   \<and> card_then_ready 0
     [(0, Idle), (1, Received (Some ''[DEBUG] x,y'')), (2, Received (Some ''RAB123C, 1000'')),
      (3, Received (Some ''READY''))] ''RAB123C'' 1000"
proof -
  have r: "read_rfid_card True 0
     [(0, Idle), (1, Received (Some ''[DEBUG] x,y'')), (2, Received (Some ''RAB123C, 1000'')),
      (3, Received (Some ''READY''))] = Some (''RAB123C'', 1000)"
    by code_simp
  from read_accepts_only_card_then_ready [OF r] r show ?thesis
    by simp
qed

text \<open>
  C6 as stated fails for a negative balance: the line \<^verbatim>\<open>RAB123C,-50\<close> followed
  by \<^verbatim>\<open>READY\<close> is accepted, with the balance -50.
\<close>

theorem negative_balance_counterexample:
  "read_rfid_card True 0
     [(0, Received (Some ''RAB123C,-50'')), (1, Received (Some ''READY''))]
   = Some (''RAB123C'', - 50)"
  by code_simp

section \<open>Properties of the settlement\<close>

text \<open>
  C1. The claim: every attempt whose balance is below the total leaves the log,
  the table and the tag as they were. The signal \<^verbatim>\<open>I\<close> is written to the port
  inside the \<^verbatim>\<open>try\<close> of line 192; when that write raises, the handler of
  line 329 calls \<^verbatim>\<open>rollback_changes\<close>, which rewrites the log from the snapshot.
  The snapshot is \<^verbatim>\<open>entries.copy()\<close>, a copy of the outer list only, and the
  cleaning loop has padded the short row in place. Here the total is 500 and the
  balance 400: the log is rewritten with the padded row, nothing is sent over the
  link, and the table is untouched.
\<close>

theorem insufficient_balance_log_rewritten:
  "process_payment ((run_at_1005 Db_ok)\<lparr>signal_write := False\<rparr>)
      (log_with [[''RAB123C'', ''0'', ''2024-01-01 10:00:00'', ''''], [''RAX999Z'']])
      ''RAB123C'' 400
    = (\<lparr>csv = Some [CSV_HEADER, [''RAB123C'', ''0'', ''2024-01-01 10:00:00'', ''''],
                     [''RAX999Z'', '''', '''', '''']],
        db = [], link_out = [], is_processing = False\<rparr>,
       Processing_failed)
   \<and> csv (log_with [[''RAB123C'', ''0'', ''2024-01-01 10:00:00'', ''''], [''RAX999Z'']])
       = Some [CSV_HEADER, [''RAB123C'', ''0'', ''2024-01-01 10:00:00'', ''''], [''RAX999Z'']]
   \<and> scan ((run_at_1005 Db_ok)\<lparr>signal_write := False\<rparr>)
         [CSV_HEADER, [''RAB123C'', ''0'', ''2024-01-01 10:00:00'', ''''], [''RAX999Z'']]
         ''RAB123C''
       = Scan_ok [CSV_HEADER, [''RAB123C'', ''0'', ''2024-01-01 10:00:00'', ''''],
                  [''RAX999Z'', '''', '''', '''']] [1, 2] True 500 [(0, 500, 1, 0)]"
  by code_simp

text \<open>
  The part of C1 the code does meet. A run that starts (the processor is not
  busy), reads a log of at least two rows, finds unpaid entries of the plate,
  computes a total that exceeds the balance and whose write of the signal \<^verbatim>\<open>I\<close>
  returns, ends with the log file and the table as they were and with nothing sent
  over the link but that signal: no balance line, so no tag write.
\<close>

theorem insufficient_balance_no_side_effect:
  assumes "\<not> is_processing w" and "csv w = Some rows" and "2 \<le> length rows"
    and "scan env rows plate = Scan_ok heap valid_entries True total_due es"
    and "balance < total_due" and "signal_write env"
  shows "process_payment env w plate balance
           = (w\<lparr>link_out := link_out w @ [Insufficient_signal]\<rparr>, Insufficient)
         \<and> csv (fst (process_payment env w plate balance)) = csv w
         \<and> db (fst (process_payment env w plate balance)) = db w
         \<and> link_out (fst (process_payment env w plate balance))
             = link_out w @ [Insufficient_signal]"
  using assms by (simp add: process_payment_def Let_def)

lemma scan_example:
  "scan (run_at_1005 d) [CSV_HEADER, [''RAB123C'', ''0'', ''2024-01-01 10:00:00'', '''']] ''RAB123C''
     = Scan_ok [CSV_HEADER, [''RAB123C'', ''0'', ''2024-01-01 10:00:00'', '''']] [1] True 500
         [(0, 500, 1, 0)]"
proof -
  have h: "hours_spent 0 300000000 = 1"
    by code_simp
  have s: "strip ''RAB123C'' = ''RAB123C''"
    by code_simp
  have u: "[1..<2] = [1::nat]"
    by code_simp
  show ?thesis
    by (simp add: scan_def CSV_HEADER_def run_at_1005_def s u h amount_due_def RATE_PER_HOUR_def)
qed

lemma run_at_1005_signal: "signal_write (run_at_1005 d)"
  by (simp add: run_at_1005_def)

theorem insufficient_balance_no_side_effect_witness:
  "process_payment (run_at_1005 Db_ok)
      (log_with [[''RAB123C'', ''0'', ''2024-01-01 10:00:00'', '''']]) ''RAB123C'' 400
    = (\<lparr>csv = Some [CSV_HEADER, [''RAB123C'', ''0'', ''2024-01-01 10:00:00'', '''']],
        db = [], link_out = [Insufficient_signal], is_processing = False\<rparr>, Insufficient)"
  using insufficient_balance_no_side_effect
    [of "log_with [[''RAB123C'', ''0'', ''2024-01-01 10:00:00'', '''']]"
        "[CSV_HEADER, [''RAB123C'', ''0'', ''2024-01-01 10:00:00'', '''']]"
        "run_at_1005 Db_ok" "''RAB123C''"
        "[CSV_HEADER, [''RAB123C'', ''0'', ''2024-01-01 10:00:00'', '''']]" "[1]" 500
        "[(0, 500, 1, 0)]" 400]
  by (simp add: scan_example log_with_def run_at_1005_signal)

lemma paid_run_changes_db:
  "db (fst (process_payment (run_at_1005 Db_ok)
        ((log_with [[''RAB123C'', ''0'', ''2024-01-01 10:00:00'', '''']])
           \<lparr>db := [\<lparr>log_id = 7, plate_number = ''RAB123C'', entry_time = 0, exit_time = None,
                     payment_status = 0, payment_amount = None, payment_time = None,
                     is_unauthorized_exit = 0\<rparr>]\<rparr>) ''RAB123C'' 1000))
   = [\<lparr>log_id = 7, plate_number = ''RAB123C'', entry_time = 0, exit_time = Some 300000000,
        payment_status = 1, payment_amount = Some 500, payment_time = Some 300000000,
        is_unauthorized_exit = 0\<rparr>]"
  by code_simp

lemma connect_failure_run:
  "process_payment (run_at_1005 Db_connect_fails)
      (log_with [[''RAB123C'', ''0'', ''2024-01-01 10:00:00'', '''']]) ''RAB123C'' 1000
    = (\<lparr>csv = Some [CSV_HEADER, [''RAB123C'', ''1'', ''2024-01-01 10:00:00'', ''2024-01-01 10:05:00'']],
        db = [], link_out = [Balance_line 500, Balance_line 1000], is_processing = False\<rparr>,
       Records_failed True)"
  by code_simp

lemma mark_example:
  "mark_paid (strftime (run_at_1005 d) (datetime_now (run_at_1005 d))) [1]
      [CSV_HEADER, [''RAB123C'', ''0'', ''2024-01-01 10:00:00'', '''']] [(0, 500, 1, 0)]
    = ([CSV_HEADER, [''RAB123C'', ''1'', ''2024-01-01 10:00:00'', ''2024-01-01 10:05:00'']], True)"
  by code_simp

lemma raised_run:
  "process_payment (run_at_1005 Db_ok) (log_with [[''RAB123C''], []]) ''RAB123C'' 1000
    = (\<lparr>csv = Some [CSV_HEADER, [''RAB123C'', '''', '''', ''''], []],
        db = [], link_out = [], is_processing = False\<rparr>,
       Processing_failed)"
  by code_simp

lemma example_log_content:
  "csv (log_with [[''RAB123C'', ''0'', ''2024-01-01 10:00:00'', '''']])
     = Some [CSV_HEADER, [''RAB123C'', ''0'', ''2024-01-01 10:00:00'', '''']]"
  by (simp add: log_with_def)

text \<open>
  C2. The claim: when the store update fails after the acknowledged tag write, the
  old balance is written back and the log is restored to what it was before the
  transaction. The code sends the old balance, but the snapshot is
  \<^verbatim>\<open>entries.copy()\<close>, a copy of the outer list only: marking an entry paid
  changes the very row the snapshot refers to. Here the log is written, then
  \<^verbatim>\<open>get_db()\<close> fails; \<^verbatim>\<open>rollback_changes\<close> rewrites the file from the snapshot
  and the entry is still marked paid, with its payment time, while the tag is back
  at 1000.
\<close>

theorem rollback_writes_marked_rows:
  "process_payment (run_at_1005 Db_connect_fails)
      (log_with [[''RAB123C'', ''0'', ''2024-01-01 10:00:00'', '''']]) ''RAB123C'' 1000
    = (\<lparr>csv = Some [CSV_HEADER, [''RAB123C'', ''1'', ''2024-01-01 10:00:00'', ''2024-01-01 10:05:00'']],
        db = [], link_out = [Balance_line 500, Balance_line 1000], is_processing = False\<rparr>,
       Records_failed True)
   \<and> csv (fst (process_payment (run_at_1005 Db_connect_fails)
        (log_with [[''RAB123C'', ''0'', ''2024-01-01 10:00:00'', '''']]) ''RAB123C'' 1000))
       \<noteq> csv (log_with [[''RAB123C'', ''0'', ''2024-01-01 10:00:00'', '''']])"
  by (simp add: connect_failure_run example_log_content)

text \<open>
  C3. The claim: no run changes the log or the table before the tag write is
  acknowledged. The handler of line 329 rewrites the log from the same snapshot
  whenever an exception leaves the \<^verbatim>\<open>try\<close> after the snapshot was taken, tag
  write or not. Here the cleaning loop pads the short row in place, then
  \<^verbatim>\<open>row[0]\<close> raises on the empty row: the file is rewritten with the padded row,
  and nothing was ever sent to the tag.
\<close>

theorem log_rewritten_without_tag_write:
  "process_payment (run_at_1005 Db_ok) (log_with [[''RAB123C''], []]) ''RAB123C'' 1000
    = (\<lparr>csv = Some [CSV_HEADER, [''RAB123C'', '''', '''', ''''], []],
        db = [], link_out = [], is_processing = False\<rparr>,
       Processing_failed)
   \<and> csv (log_with [[''RAB123C''], []]) = Some [CSV_HEADER, [''RAB123C''], []]"
  using raised_run by (simp add: log_with_def)

lemma run_at_1005_fields:
  "datetime_now (run_at_1005 d) = 300000000"
  "strftime (run_at_1005 d) t = ''2024-01-01 10:05:00''"
  "log_write (run_at_1005 d) = Io_ok"
  "rollback_write (run_at_1005 d) = Io_ok"
  "db_state (run_at_1005 d) = d"
  by (simp_all add: run_at_1005_def)

lemma run_at_1005_acks:
  "write_loop (debit_clock (run_at_1005 d)) (debit_polls (run_at_1005 d))"
  "write_loop (restore_clock (run_at_1005 d)) (restore_polls (run_at_1005 d))"
proof -
  have a: "write_loop 0 [(1, Received (Some ''[UPDATED]''))]"
    by code_simp
  have b: "write_loop 2 [(3, Received (Some ''[UPDATED]''))]"
    by code_simp
  from a show "write_loop (debit_clock (run_at_1005 d)) (debit_polls (run_at_1005 d))"
    by (simp only: run_at_1005_def run_env.simps)
  from b show "write_loop (restore_clock (run_at_1005 d)) (restore_polls (run_at_1005 d))"
    by (simp only: run_at_1005_def run_env.simps)
qed

text \<open>
  The part of C3 the code does meet. A run that reaches the tag write and is not
  acknowledged ends with the log file and the table as they were; it has sent the
  new balance and nothing else.
\<close>

theorem card_update_failed_no_store_mutation:
  assumes "\<not> is_processing w" and "csv w = Some rows" and "2 \<le> length rows"
    and "scan env rows plate = Scan_ok heap valid_entries True total_due es"
    and "total_due \<le> balance"
    and "\<not> write_loop (debit_clock env) (debit_polls env)"
  shows "process_payment env w plate balance
           = (w\<lparr>link_out := link_out w @ [Balance_line (balance - total_due)]\<rparr>,
              Card_update_failed)"
  using assms by (simp add: process_payment_def Let_def)

theorem card_update_failed_no_store_mutation_witness:
  "process_payment ((run_at_1005 Db_ok)\<lparr>debit_polls := [(1, Received (Some ''[DENIED]''))]\<rparr>)
      (log_with [[''RAB123C'', ''0'', ''2024-01-01 10:00:00'', '''']]) ''RAB123C'' 1000
    = (\<lparr>csv = Some [CSV_HEADER, [''RAB123C'', ''0'', ''2024-01-01 10:00:00'', '''']],
        db = [], link_out = [Balance_line 500], is_processing = False\<rparr>, Card_update_failed)"
proof -
  let ?env = "(run_at_1005 Db_ok)\<lparr>debit_polls := [(1, Received (Some ''[DENIED]''))]\<rparr>"
  let ?rows = "[CSV_HEADER, [''RAB123C'', ''0'', ''2024-01-01 10:00:00'', '''']]"
  let ?w = "log_with [[''RAB123C'', ''0'', ''2024-01-01 10:00:00'', '''']]"
  have idle: "\<not> is_processing ?w" and logf: "csv ?w = Some ?rows" and len: "2 \<le> length ?rows"
    by (simp_all add: log_with_def)
  have d: "\<not> write_loop (debit_clock ?env) (debit_polls ?env)"
    by code_simp
  have "scan ?env ?rows ''RAB123C'' = scan (run_at_1005 Db_ok) ?rows ''RAB123C''"
    by (simp add: scan_def)
  then have sc: "scan ?env ?rows ''RAB123C'' = Scan_ok ?rows [1] True 500 [(0, 500, 1, 0)]"
    by (simp only: scan_example)
  have le: "(500::int) \<le> 1000"
    by simp
  from card_update_failed_no_store_mutation [OF idle logf len sc le d] show ?thesis
    by (simp add: log_with_def)
qed

lemma process_payment_shape:
  "(fst (process_payment env w plate balance) = w
      \<and> snd (process_payment env w plate balance) \<in> {Busy, Processing_failed, No_entries, No_unpaid})
   \<or> (\<exists>rows heap. csv w = Some rows
         \<and> process_payment env w plate balance
             = (w\<lparr>csv := rollback_changes (rollback_write env) heap [0..<length rows] (csv w)\<rparr>,
                Processing_failed))
   \<or> process_payment env w plate balance
        = (w\<lparr>link_out := link_out w @ [Insufficient_signal]\<rparr>, Insufficient)
   \<or> (\<exists>total_due. \<not> write_loop (debit_clock env) (debit_polls env)
         \<and> process_payment env w plate balance
             = (w\<lparr>link_out := link_out w @ [Balance_line (balance - total_due)]\<rparr>,
                Card_update_failed))
   \<or> (\<exists>rows heap valid_entries total_due es.
         write_loop (debit_clock env) (debit_polls env)
         \<and> csv w = Some rows
         \<and> scan env rows plate = Scan_ok heap valid_entries True total_due es
         \<and> total_due \<le> balance
         \<and> process_payment env w plate balance
             = commit_stores env (w\<lparr>link_out := link_out w @ [Balance_line (balance - total_due)]\<rparr>)
                 plate balance heap [0..<length rows] valid_entries es)"
proof (cases "is_processing w")
  case True
  then show ?thesis by (simp add: process_payment_def)
next
  case False
  note idle = this
  show ?thesis
  proof (cases "csv w")
    case None
    with idle show ?thesis by (simp add: process_payment_def)
  next
    case (Some rows)
    show ?thesis
    proof (cases "length rows < 2")
      case True
      with idle Some show ?thesis by (simp add: process_payment_def)
    next
      case False
      note long = this
      show ?thesis
      proof (cases "scan env rows plate")
        case (Scan_raised heap)
        with idle Some long
        have "process_payment env w plate balance
             = (w\<lparr>csv := rollback_changes (rollback_write env) heap [0..<length rows] (csv w)\<rparr>,
                Processing_failed)"
          by (simp add: process_payment_def)
        with Some show ?thesis by blast
      next
        case (Scan_ok heap valid_entries found total_due es)
        show ?thesis
        proof (cases found)
          case False
          with idle Some long Scan_ok show ?thesis by (simp add: process_payment_def)
        next
          case True
          note found = this
          show ?thesis
          proof (cases "balance < total_due")
            case True
            note short = this
            show ?thesis
            proof (cases "signal_write env")
              case True
              with idle Some long Scan_ok found short show ?thesis
                by (simp add: process_payment_def)
            next
              case False
              with idle Some long Scan_ok found short
              have "process_payment env w plate balance
                = (w\<lparr>csv := rollback_changes (rollback_write env) heap [0..<length rows] (csv w)\<rparr>,
                   Processing_failed)"
                by (simp add: process_payment_def)
              with Some show ?thesis by blast
            qed
          next
            case False
            note enough = this
            show ?thesis
            proof (cases "write_loop (debit_clock env) (debit_polls env)")
              case False
              with idle Some long Scan_ok found enough
              have "process_payment env w plate balance
                = (w\<lparr>link_out := link_out w @ [Balance_line (balance - total_due)]\<rparr>,
                   Card_update_failed)"
                by (simp add: process_payment_def Let_def)
              with False show ?thesis by blast
            next
              case True
              with idle Some long Scan_ok found enough
              have "process_payment env w plate balance
                = commit_stores env (w\<lparr>link_out := link_out w @ [Balance_line (balance - total_due)]\<rparr>)
                    plate balance heap [0..<length rows] valid_entries es"
                by (simp add: process_payment_def Let_def)
              moreover from enough have "total_due \<le> balance" by simp
              moreover from Scan_ok found
              have "scan env rows plate = Scan_ok heap valid_entries True total_due es" by simp
              ultimately show ?thesis
                using True Some by blast
            qed
          qed
        qed
      qed
    qed
  qed
qed

lemma commit_stores_shape:
  "(\<exists>f. commit_stores env w plate balance heap orig valid es
           = (w\<lparr>csv := f, db := foldl (update_paid plate (datetime_now env)) (db w) es\<rparr>, Settled))
   \<or> (\<exists>f. commit_stores env w plate balance heap orig valid es = (w\<lparr>csv := f\<rparr>, Settled_db_failed))
   \<or> (\<exists>f. commit_stores env w plate balance heap orig valid es
           = (w\<lparr>link_out := link_out w @ [Balance_line balance], csv := f\<rparr>,
              Records_failed (write_loop (restore_clock env) (restore_polls env))))"
  by (auto simp: commit_stores_def compensate_def split: prod.splits bool.splits db_io.splits)

text \<open>
  The table changes in no run but one whose tag write was acknowledged and that
  ended as settled.
\<close>

theorem database_written_only_after_ack:
  assumes "db (fst (process_payment env w plate balance)) \<noteq> db w"
  shows "write_loop (debit_clock env) (debit_polls env)
         \<and> snd (process_payment env w plate balance) = Settled"
  using assms process_payment_shape [of env w plate balance]
proof (elim disjE exE conjE)
  fix rows :: "row list" and heap valid_entries total_due es
  assume ack: "write_loop (debit_clock env) (debit_polls env)"
    and run: "process_payment env w plate balance
             = commit_stores env (w\<lparr>link_out := link_out w @ [Balance_line (balance - total_due)]\<rparr>)
                 plate balance heap [0..<length rows] valid_entries es"
  from commit_stores_shape
    [of env "w\<lparr>link_out := link_out w @ [Balance_line (balance - total_due)]\<rparr>" plate balance
        heap "[0..<length rows]" valid_entries es] assms ack
  show ?thesis
    unfolding run by auto
qed auto

text \<open>
  The log file changes only in a run whose tag write was acknowledged, or in one
  that ended in the handler of line 329 (which rewrites it from the snapshot).
\<close>

theorem log_written_only_after_ack_or_by_handler:
  assumes "csv (fst (process_payment env w plate balance)) \<noteq> csv w"
  shows "write_loop (debit_clock env) (debit_polls env)
         \<or> snd (process_payment env w plate balance) = Processing_failed"
  using assms process_payment_shape [of env w plate balance]
  by (elim disjE exE conjE) auto

text \<open>
  The part of C2 the code does meet. Every run that ends in the handler of line
  317 (marking the rows, writing the log or opening the database failed) had its
  tag write acknowledged, has sent the old balance after the new one, and left the
  table as it was.
\<close>

theorem compensating_write_after_failed_store_update:
  assumes "snd (process_payment env w plate balance) = Records_failed b"
  shows "\<exists>total_due. link_out (fst (process_payment env w plate balance))
             = link_out w @ [Balance_line (balance - total_due), Balance_line balance]
         \<and> db (fst (process_payment env w plate balance)) = db w
         \<and> write_loop (debit_clock env) (debit_polls env)
         \<and> b = write_loop (restore_clock env) (restore_polls env)"
  using assms process_payment_shape [of env w plate balance]
proof (elim disjE exE conjE)
  fix rows :: "row list" and heap valid_entries total_due es
  assume ack: "write_loop (debit_clock env) (debit_polls env)"
    and run: "process_payment env w plate balance
             = commit_stores env (w\<lparr>link_out := link_out w @ [Balance_line (balance - total_due)]\<rparr>)
                 plate balance heap [0..<length rows] valid_entries es"
  from commit_stores_shape
    [of env "w\<lparr>link_out := link_out w @ [Balance_line (balance - total_due)]\<rparr>" plate balance
        heap "[0..<length rows]" valid_entries es] assms ack
  have "link_out (fst (process_payment env w plate balance))
             = link_out w @ [Balance_line (balance - total_due), Balance_line balance]
         \<and> db (fst (process_payment env w plate balance)) = db w
         \<and> write_loop (debit_clock env) (debit_polls env)
         \<and> b = write_loop (restore_clock env) (restore_polls env)"
    unfolding run by auto
  then show ?thesis by blast
qed auto

text \<open>
  A failure of an \<^verbatim>\<open>UPDATE\<close> or of the \<^verbatim>\<open>commit\<close> does not reach that handler:
  the run ends with the log rewritten (the entries paid), the table as it was, and
  no compensating write.
\<close>

theorem db_update_failure_not_compensated:
  assumes "\<not> is_processing w" and "csv w = Some rows" and "2 \<le> length rows"
    and "scan env rows plate = Scan_ok heap valid_entries True total_due es"
    and "total_due \<le> balance"
    and "write_loop (debit_clock env) (debit_polls env)"
    and "mark_paid (strftime env (datetime_now env)) valid_entries heap es = (heap1, True)"
    and "log_write env = Io_ok"
    and "db_state env = Db_update_fails"
  shows "process_payment env w plate balance
           = (w\<lparr>link_out := link_out w @ [Balance_line (balance - total_due)],
                 csv := Some (heap1 ! 0 # map ((!) heap1) valid_entries)\<rparr>,
              Settled_db_failed)"
  using assms
  by (simp add: process_payment_def Let_def commit_stores_def file_write_def)

theorem database_written_only_after_ack_witness:
  "db (fst (process_payment (run_at_1005 Db_ok)
        ((log_with [[''RAB123C'', ''0'', ''2024-01-01 10:00:00'', '''']])
           \<lparr>db := [\<lparr>log_id = 7, plate_number = ''RAB123C'', entry_time = 0, exit_time = None,
                     payment_status = 0, payment_amount = None, payment_time = None,
                     is_unauthorized_exit = 0\<rparr>]\<rparr>) ''RAB123C'' 1000))
     = [\<lparr>log_id = 7, plate_number = ''RAB123C'', entry_time = 0, exit_time = Some 300000000,
          payment_status = 1, payment_amount = Some 500, payment_time = Some 300000000,
          is_unauthorized_exit = 0\<rparr>]
   \<and> write_loop (debit_clock (run_at_1005 Db_ok)) (debit_polls (run_at_1005 Db_ok))
   \<and> snd (process_payment (run_at_1005 Db_ok)
        ((log_with [[''RAB123C'', ''0'', ''2024-01-01 10:00:00'', '''']])
           \<lparr>db := [\<lparr>log_id = 7, plate_number = ''RAB123C'', entry_time = 0, exit_time = None,
                     payment_status = 0, payment_amount = None, payment_time = None,
                     is_unauthorized_exit = 0\<rparr>]\<rparr>) ''RAB123C'' 1000) = Settled"
proof -
  let ?w = "(log_with [[''RAB123C'', ''0'', ''2024-01-01 10:00:00'', '''']])
           \<lparr>db := [\<lparr>log_id = 7, plate_number = ''RAB123C'', entry_time = 0, exit_time = None,
                     payment_status = 0, payment_amount = None, payment_time = None,
                     is_unauthorized_exit = 0\<rparr>]\<rparr>"
  have ne: "db (fst (process_payment (run_at_1005 Db_ok) ?w ''RAB123C'' 1000)) \<noteq> db ?w"
    by (simp add: paid_run_changes_db)
  from database_written_only_after_ack [OF ne] paid_run_changes_db show ?thesis
    by simp
qed

theorem log_written_only_after_ack_or_by_handler_witness:
  "csv (fst (process_payment (run_at_1005 Db_connect_fails)
        (log_with [[''RAB123C'', ''0'', ''2024-01-01 10:00:00'', '''']]) ''RAB123C'' 1000))
     = Some [CSV_HEADER, [''RAB123C'', ''1'', ''2024-01-01 10:00:00'', ''2024-01-01 10:05:00'']]
   \<and> write_loop (debit_clock (run_at_1005 Db_connect_fails))
         (debit_polls (run_at_1005 Db_connect_fails))"
proof -
  let ?w = "log_with [[''RAB123C'', ''0'', ''2024-01-01 10:00:00'', '''']]"
  have c: "csv (fst (process_payment (run_at_1005 Db_connect_fails) ?w ''RAB123C'' 1000))
     = Some [CSV_HEADER, [''RAB123C'', ''1'', ''2024-01-01 10:00:00'', ''2024-01-01 10:05:00'']]"
    by (simp add: connect_failure_run)
  then have ne: "csv (fst (process_payment (run_at_1005 Db_connect_fails) ?w ''RAB123C'' 1000))
     \<noteq> csv ?w"
    by (simp add: log_with_def)
  from log_written_only_after_ack_or_by_handler [OF ne] c show ?thesis
    by (simp add: connect_failure_run)
qed

theorem compensating_write_after_failed_store_update_witness:
  "snd (process_payment (run_at_1005 Db_connect_fails)
        (log_with [[''RAB123C'', ''0'', ''2024-01-01 10:00:00'', '''']]) ''RAB123C'' 1000)
     = Records_failed True
   \<and> (\<exists>total_due.
        link_out (fst (process_payment (run_at_1005 Db_connect_fails)
          (log_with [[''RAB123C'', ''0'', ''2024-01-01 10:00:00'', '''']]) ''RAB123C'' 1000))
        = link_out (log_with [[''RAB123C'', ''0'', ''2024-01-01 10:00:00'', '''']])
            @ [Balance_line (1000 - total_due), Balance_line 1000])"
proof -
  let ?w = "log_with [[''RAB123C'', ''0'', ''2024-01-01 10:00:00'', '''']]"
  have o: "snd (process_payment (run_at_1005 Db_connect_fails) ?w ''RAB123C'' 1000)
     = Records_failed True"
    by (simp add: connect_failure_run)
  from compensating_write_after_failed_store_update [OF o] o show ?thesis
    by blast
qed

theorem db_update_failure_not_compensated_witness:
  "process_payment (run_at_1005 Db_update_fails)
      (log_with [[''RAB123C'', ''0'', ''2024-01-01 10:00:00'', '''']]) ''RAB123C'' 1000
    = (\<lparr>csv = Some [CSV_HEADER, [''RAB123C'', ''1'', ''2024-01-01 10:00:00'', ''2024-01-01 10:05:00'']],
        db = [], link_out = [Balance_line 500], is_processing = False\<rparr>,
       Settled_db_failed)"
proof -
  let ?env = "run_at_1005 Db_update_fails"
  let ?rows = "[CSV_HEADER, [''RAB123C'', ''0'', ''2024-01-01 10:00:00'', '''']]"
  let ?w = "log_with [[''RAB123C'', ''0'', ''2024-01-01 10:00:00'', '''']]"
  have idle: "\<not> is_processing ?w" and logf: "csv ?w = Some ?rows" and len: "2 \<le> length ?rows"
    by (simp_all add: log_with_def)
  have le: "(500::int) \<le> 1000"
    by simp
  have lw: "log_write ?env = Io_ok" and ds: "db_state ?env = Db_update_fails"
    by (simp_all add: run_at_1005_fields)
  from db_update_failure_not_compensated
    [OF idle logf len scan_example le run_at_1005_acks(1) mark_example lw ds]
  show ?thesis
    by (simp add: log_with_def)
qed

section \<open>Properties of the Reconciler\<close>

lemma find_append_found:
  "find P xs = Some x \<Longrightarrow> find P (xs @ ys) = Some x"
  by (induction xs) auto

lemma find_append_none:
  "find P xs = None \<Longrightarrow> find P (xs @ [y]) = (if P y then Some y else None)"
  by (induction xs) auto

lemma find_map_same_key:
  assumes "\<And>r. P (f r) = P r"
  shows "find P (map f xs) = map_option f (find P xs)"
  using assms by (induction xs) auto

lemma merge_record_update:
  assumes "find (\<lambda>r. plate_number r = plate \<and> entry_time r = et) table = Some existing"
    and "status = 1 \<and> payment_status existing = 0"
  shows "fst (merge_record (plate, et, status, pt) table)
           = map (\<lambda>r. if log_id r = log_id existing
                          then r\<lparr>payment_status := status, payment_time := pt,
                                 payment_amount := calculate_payment_amount et pt\<rparr>
                          else r) table"
  using assms by (simp add: merge_record_def)

lemma reconciled_after_update:
  assumes ex: "find (\<lambda>r. plate_number r = plate \<and> entry_time r = et) table = Some ex"
    and ok: "status = 1 \<longrightarrow> payment_status ex \<noteq> 0 \<or> log_id ex = i"
    and written: "s' \<noteq> 0"
  shows "reconciled (plate, et, status, pt)
           (map (\<lambda>r. if log_id r = i
                      then r\<lparr>payment_status := s', payment_time := pt',
                             payment_amount := a'\<rparr>
                      else r) table)"
proof -
  define f where "f = (\<lambda>r::vehicle_log. if log_id r = i
                      then r\<lparr>payment_status := s', payment_time := pt',
                             payment_amount := a'\<rparr>
                      else r)"
  define P where "P = (\<lambda>r::vehicle_log. plate_number r = plate \<and> entry_time r = et)"
  have "find P (map f table) = map_option f (find P table)"
    by (rule find_map_same_key) (simp add: P_def f_def)
  with ex have found: "find P (map f table) = Some (f ex)"
    by (simp add: P_def)
  have "\<not> (status = 1 \<and> payment_status (f ex) = 0)"
    using ok written by (auto simp: f_def)
  with found have "reconciled (plate, et, status, pt) (map f table)"
    by (simp add: reconciled_def P_def)
  then show ?thesis
    by (simp add: f_def)
qed

lemma merge_record_reconciles:
  "reconciled rec (fst (merge_record rec table))"
proof -
  obtain plate et status pt where rec: "rec = (plate, et, status, pt)"
    by (cases rec)
  show ?thesis
  proof (cases "find (\<lambda>r. plate_number r = plate \<and> entry_time r = et) table")
    case None
    then show ?thesis
      by (simp add: rec merge_record_def reconciled_def find_append_none)
  next
    case (Some existing)
    show ?thesis
    proof (cases "status = 1 \<and> payment_status existing = 0")
      case False
      with Some show ?thesis
        by (auto simp: rec merge_record_def reconciled_def)
    next
      case True
      from True have nz: "status \<noteq> 0" by simp
      have same: "status = 1 \<longrightarrow> payment_status existing \<noteq> 0 \<or> log_id existing = log_id existing"
        by simp
      have "reconciled (plate, et, status, pt)
           (map (\<lambda>r. if log_id r = log_id existing
                      then r\<lparr>payment_status := status, payment_time := pt,
                             payment_amount := calculate_payment_amount et pt\<rparr>
                      else r) table)"
        by (rule reconciled_after_update [OF Some same nz])
      then show ?thesis
        unfolding rec merge_record_update [OF Some True] .
    qed
  qed
qed

lemma merge_record_keeps_reconciled:
  assumes "reconciled rec table"
  shows "reconciled rec (fst (merge_record rec' table))"
proof -
  obtain plate et status pt where rec: "rec = (plate, et, status, pt)"
    by (cases rec)
  obtain plate' et' status' pt' where rec': "rec' = (plate', et', status', pt')"
    by (cases rec')
  from assms obtain ex
    where ex: "find (\<lambda>r. plate_number r = plate \<and> entry_time r = et) table = Some ex"
    and ok: "\<not> (status = 1 \<and> payment_status ex = 0)"
    by (auto simp: rec reconciled_def split: option.splits)
  show ?thesis
  proof (cases "find (\<lambda>r. plate_number r = plate' \<and> entry_time r = et') table")
    case None
    with ex ok show ?thesis
      by (simp add: rec rec' merge_record_def reconciled_def find_append_found)
  next
    case (Some existing)
    show ?thesis
    proof (cases "status' = 1 \<and> payment_status existing = 0")
      case False
      with Some ex ok show ?thesis
        by (auto simp: rec rec' merge_record_def reconciled_def)
    next
      case True
      from True have nz: "status' \<noteq> 0" by simp
      from ok have ok': "status = 1 \<longrightarrow> payment_status ex \<noteq> 0 \<or> log_id ex = log_id existing"
        by simp
      have "reconciled (plate, et, status, pt)
           (map (\<lambda>r. if log_id r = log_id existing
                      then r\<lparr>payment_status := status', payment_time := pt',
                             payment_amount := calculate_payment_amount et' pt'\<rparr>
                      else r) table)"
        by (rule reconciled_after_update [OF ex ok' nz])
      then show ?thesis
        unfolding rec rec' merge_record_update [OF Some True] .
    qed
  qed
qed

lemma merge_record_reconciled_noop:
  assumes "reconciled rec table"
  shows "merge_record rec table = (table, [])"
  using assms by (auto simp: merge_record_def reconciled_def split: prod.splits option.splits)

lemma sync_rows_reconciles:
  assumes "sync_rows parse fieldnames table rs = Some (table', ops)"
  shows "(\<forall>r\<in>set rs. \<exists>rec. parse_row parse fieldnames r = Some rec \<and> reconciled rec table')
         \<and> (\<forall>rec. reconciled rec table \<longrightarrow> reconciled rec table')"
  using assms
proof (induction rs arbitrary: table table' ops)
  case Nil
  then show ?case by simp
next
  case (Cons r rs)
  from Cons.prems obtain rec where p: "parse_row parse fieldnames r = Some rec"
    by (auto split: option.splits)
  obtain table1 ops1 where m: "merge_record rec table = (table1, ops1)"
    by (cases "merge_record rec table")
  from Cons.prems p m obtain ops2 where rest: "sync_rows parse fieldnames table1 rs = Some (table', ops2)"
    by (auto split: option.splits)
  from Cons.IH [OF rest]
  have ih1: "\<forall>r\<in>set rs. \<exists>rec. parse_row parse fieldnames r = Some rec \<and> reconciled rec table'"
    and ih2: "\<forall>rec. reconciled rec table1 \<longrightarrow> reconciled rec table'"
    by blast+
  have "reconciled rec table1"
    using merge_record_reconciles [of rec table] m by simp
  with ih2 have here: "reconciled rec table'"
    by blast
  have keep: "reconciled q table1" if "reconciled q table" for q
    using merge_record_keeps_reconciled [OF that, of rec] m by simp
  show ?case
  proof (intro conjI ballI allI impI)
    fix q assume "q \<in> set (r # rs)"
    then have "q = r \<or> q \<in> set rs" by simp
    then show "\<exists>rec. parse_row parse fieldnames q = Some rec \<and> reconciled rec table'"
      using p here ih1 by blast
  next
    fix q assume "reconciled q table"
    then have "reconciled q table1" by (rule keep)
    with ih2 show "reconciled q table'" by blast
  qed
qed

lemma sync_rows_noop:
  assumes "\<forall>r\<in>set rs. \<exists>rec. parse_row parse fieldnames r = Some rec \<and> reconciled rec table"
  shows "sync_rows parse fieldnames table rs = Some (table, [])"
  using assms
proof (induction rs)
  case Nil
  show ?case by simp
next
  case (Cons r rs)
  then obtain rec where p: "parse_row parse fieldnames r = Some rec" and ok: "reconciled rec table"
    by auto
  from Cons have "sync_rows parse fieldnames table rs = Some (table, [])"
    by simp
  with p merge_record_reconciled_noop [OF ok] show ?case
    by simp
qed

lemma sync_rows_raises_whatever_the_table:
  "sync_rows parse fieldnames table rs = None
     \<longleftrightarrow> (\<exists>r\<in>set rs. parse_row parse fieldnames r = None)"
proof (induction rs arbitrary: table)
  case Nil
  show ?case by simp
next
  case (Cons r rs)
  show ?case
  proof (cases "parse_row parse fieldnames r")
    case None
    then show ?thesis by simp
  next
    case (Some rec)
    obtain table1 ops1 where m: "merge_record rec table = (table1, ops1)"
      by (cases "merge_record rec table")
    from Cons [of table1] Some m show ?thesis
      by (auto split: option.splits)
  qed
qed

text \<open>
  Whatever a run of the merge returns, a second run on the table it produced does
  nothing: after the first run every row of the log has its row in the table, and
  the first such row is paid if the log says paid; and a run that raised raises
  again, whatever the table.
\<close>

lemma sync_idempotent:
  assumes "sync_csv_to_db parse logfile table = (table1, ops1)"
  shows "sync_csv_to_db parse logfile table1 = (table1, [])"
proof (cases logfile)
  case None
  with assms show ?thesis by (simp add: sync_csv_to_db_def)
next
  case (Some rows)
  show ?thesis
  proof (cases rows)
    case Nil
    with Some assms show ?thesis by (simp add: sync_csv_to_db_def)
  next
    case (Cons fieldnames data)
    let ?rs = "filter (\<lambda>r. r \<noteq> []) data"
    show ?thesis
    proof (cases "sync_rows parse fieldnames table ?rs")
      case None
      with Some Cons assms have same: "table1 = table"
        by (simp add: sync_csv_to_db_def)
      from None have "\<exists>r\<in>set ?rs. parse_row parse fieldnames r = None"
        by (simp only: sync_rows_raises_whatever_the_table)
      then have "sync_rows parse fieldnames table1 ?rs = None"
        by (simp only: sync_rows_raises_whatever_the_table)
      with Some Cons show ?thesis
        by (simp add: sync_csv_to_db_def)
    next
      case (Some res)
      obtain t o1 where res: "res = (t, o1)" by (cases res)
      with Some \<open>logfile = Some rows\<close> Cons assms have t: "t = table1"
        by (simp add: sync_csv_to_db_def)
      from sync_rows_reconciles [of parse fieldnames table ?rs table1 o1] Some res t
      have "\<forall>r\<in>set ?rs. \<exists>rec. parse_row parse fieldnames r = Some rec \<and> reconciled rec table1"
        by simp
      then have "sync_rows parse fieldnames table1 ?rs = Some (table1, [])"
        by (rule sync_rows_noop)
      with \<open>logfile = Some rows\<close> Cons show ?thesis
        by (simp add: sync_csv_to_db_def)
    qed
  qed
qed

lemma merge_record_ops:
  "(Inserted i \<in> set (snd (merge_record (plate, et, status, pt) table))
      \<longrightarrow> find (\<lambda>r. plate_number r = plate \<and> entry_time r = et) table = None)
   \<and> (Updated i \<in> set (snd (merge_record (plate, et, status, pt) table))
      \<longrightarrow> status = 1
          \<and> (\<exists>existing. find (\<lambda>r. plate_number r = plate \<and> entry_time r = et) table = Some existing
                \<and> payment_status existing = 0 \<and> log_id existing = i))"
  by (auto simp: merge_record_def split: option.splits if_splits)

text \<open>
  C5. Running \<^verbatim>\<open>sync_csv_to_db\<close> again on the table a first run produced returns
  that table and performs no insert and no update. A record is inserted only when
  no row of the table has its plate and entry time, and a row is updated only when
  the log says paid (status 1) and the first row of the table with that plate and
  entry time is unpaid (status 0).
\<close>

theorem reconciler_idempotent:
  "sync_csv_to_db parse logfile (fst (sync_csv_to_db parse logfile table))
     = (fst (sync_csv_to_db parse logfile table), [])
   \<and> (Inserted i \<in> set (snd (merge_record (plate, et, status, pt) table))
      \<longrightarrow> find (\<lambda>r. plate_number r = plate \<and> entry_time r = et) table = None)
   \<and> (Updated i \<in> set (snd (merge_record (plate, et, status, pt) table))
      \<longrightarrow> status = 1
          \<and> (\<exists>existing. find (\<lambda>r. plate_number r = plate \<and> entry_time r = et) table = Some existing
                \<and> payment_status existing = 0 \<and> log_id existing = i))"
proof -
  obtain table1 ops1 where "sync_csv_to_db parse logfile table = (table1, ops1)"
    by (cases "sync_csv_to_db parse logfile table")
  then have "sync_csv_to_db parse logfile (fst (sync_csv_to_db parse logfile table))
     = (fst (sync_csv_to_db parse logfile table), [])"
    using sync_idempotent [of parse logfile table table1 ops1] by simp
  with merge_record_ops [of i plate et status pt table] show ?thesis
    by blast
qed

lemma sync_example:
  "sync_csv_to_db
     (\<lambda>s. if s = ''2024-01-01 10:00:00'' then Some 0
          else if s = ''2024-01-01 10:05:00'' then Some 300000000 else None)
     (Some [CSV_HEADER,
            [''RAB123C'', ''0'', ''2024-01-01 10:00:00'', ''''],
            [],
            [''RAB123C'', ''1'', ''2024-01-01 10:00:00'', ''2024-01-01 10:05:00'']]) []
   = ([\<lparr>log_id = 1, plate_number = ''RAB123C'', entry_time = 0, exit_time = None,
         payment_status = 1, payment_amount = Some 500, payment_time = Some 300000000,
         is_unauthorized_exit = 0\<rparr>],
      [Inserted 1, Updated 1])"
  by code_simp

theorem reconciler_idempotent_witness:
  "sync_csv_to_db
     (\<lambda>s. if s = ''2024-01-01 10:00:00'' then Some 0
          else if s = ''2024-01-01 10:05:00'' then Some 300000000 else None)
     (Some [CSV_HEADER,
            [''RAB123C'', ''0'', ''2024-01-01 10:00:00'', ''''],
            [],
            [''RAB123C'', ''1'', ''2024-01-01 10:00:00'', ''2024-01-01 10:05:00'']])
     [\<lparr>log_id = 1, plate_number = ''RAB123C'', entry_time = 0, exit_time = None,
        payment_status = 1, payment_amount = Some 500, payment_time = Some 300000000,
        is_unauthorized_exit = 0\<rparr>]
   = ([\<lparr>log_id = 1, plate_number = ''RAB123C'', entry_time = 0, exit_time = None,
         payment_status = 1, payment_amount = Some 500, payment_time = Some 300000000,
         is_unauthorized_exit = 0\<rparr>], [])"
  using reconciler_idempotent
    [of "\<lambda>s. if s = ''2024-01-01 10:00:00'' then Some 0
          else if s = ''2024-01-01 10:05:00'' then Some 300000000 else None"
        "Some [CSV_HEADER,
            [''RAB123C'', ''0'', ''2024-01-01 10:00:00'', ''''],
            [],
            [''RAB123C'', ''1'', ''2024-01-01 10:00:00'', ''2024-01-01 10:05:00'']]"
        "[]" 0 "[]" 0 0 None]
  unfolding sync_example by simp

section \<open>Further properties of the serial link\<close>

lemma write_loop_acked_only:
  "write_loop st ps \<Longrightarrow>
     \<exists>a t raw c. ps = a @ (t, Received (Some raw)) # c \<and> t - st < 5
        \<and> str_contains ''[UPDATED]'' (strip raw)"
proof (induction ps)
  case Nil
  then show ?case by simp
next
  case (Cons x ps)
  obtain now r where x: "x = (now, r)" by (cases x)
  from Cons.prems x have t: "now - st < 5"
    by (simp split: if_splits)
  have later: "\<exists>a t raw c. x # ps = a @ (t, Received (Some raw)) # c \<and> t - st < 5
        \<and> str_contains ''[UPDATED]'' (strip raw)" if "write_loop st ps"
  proof -
    from Cons.IH [OF that] obtain a t raw c
      where "ps = a @ (t, Received (Some raw)) # c" and "t - st < 5"
        and "str_contains ''[UPDATED]'' (strip raw)"
      by blast
    then have "x # ps = (x # a) @ (t, Received (Some raw)) # c \<and> t - st < 5
        \<and> str_contains ''[UPDATED]'' (strip raw)"
      by simp
    then show ?thesis by blast
  qed
  show ?case
  proof (cases r)
    case Idle
    with Cons.prems x t have "write_loop st ps" by simp
    then show ?thesis by (rule later)
  next
    case (Received o_raw)
    show ?thesis
    proof (cases o_raw)
      case None
      with Cons.prems x t Received show ?thesis by simp
    next
      case (Some raw)
      show ?thesis
      proof (cases "str_contains ''[UPDATED]'' (strip raw)")
        case True
        with x Received Some t
        have "x # ps = [] @ (now, Received (Some raw)) # ps \<and> now - st < 5
            \<and> str_contains ''[UPDATED]'' (strip raw)"
          by simp
        then show ?thesis by blast
      next
        case False
        with Cons.prems x t Received Some have "write_loop st ps"
          by (simp add: Let_def split: if_splits)
        then show ?thesis by (rule later)
      qed
    qed
  qed
qed

text \<open>
  \<^verbatim>\<open>write_rfid_card\<close> returns \<^verbatim>\<open>True\<close> only when a line containing
  \<^verbatim>\<open>[UPDATED]\<close> was read within 5 seconds of the start; no answer, or any other
  final answer, is a failure.
\<close>

theorem tag_write_confirmed_only_by_updated:
  assumes "write_loop start_time polls"
  shows "\<exists>a t raw c. polls = a @ (t, Received (Some raw)) # c \<and> t - start_time < 5
        \<and> str_contains ''[UPDATED]'' (strip raw)"
  using assms by (rule write_loop_acked_only)

theorem tag_write_confirmed_only_by_updated_witness:
  "write_loop 0 [(0, Idle), (1, Received (Some ''noise'')), (2, Received (Some ''[UPDATED] 500''))]
   \<and> (\<exists>a t raw c.
        [(0 :: rat, Idle), (1, Received (Some ''noise'')), (2, Received (Some ''[UPDATED] 500''))]
          = a @ (t, Received (Some raw)) # c \<and> t - 0 < 5
        \<and> str_contains ''[UPDATED]'' (strip raw))"
proof -
  have w: "write_loop 0 [(0, Idle), (1, Received (Some ''noise'')), (2, Received (Some ''[UPDATED] 500''))]"
    by code_simp
  from tag_write_confirmed_only_by_updated [OF w] w show ?thesis
    by blast
qed

lemma ready_after_idle:
  assumes "\<forall>p\<in>set mid. snd p = Idle \<and> fst p - rt < 2"
    and "tj - rt < 2" and "strip rj = ''READY''"
  shows "read_loop st (Await_ready plate bal rt) (mid @ (tj, Received (Some rj)) # rest)
           = Some (plate, bal)"
  using assms
proof (induction mid)
  case Nil
  then show ?case by simp
next
  case (Cons p mid)
  obtain now r where p: "p = (now, r)" by (cases p)
  with Cons.prems have "r = Idle" and "now - rt < 2"
    by simp_all
  with Cons p show ?case by simp
qed

lemma card_after_idle:
  assumes "\<forall>p\<in>set pre. snd p = Idle \<and> fst p - st < 5"
    and "ti - st < 5"
    and "CHR '','' \<in> set (strip ri)" and "\<not> startswith (strip ri) ''[''"
    and "parse_card (strip ri) = Some (plate, bal)"
    and "read_loop st (Await_ready plate bal ti) rest = res"
  shows "read_loop st Await_card (pre @ (ti, Received (Some ri)) # rest) = res"
  using assms
proof (induction pre)
  case Nil
  then show ?case by (simp add: Let_def)
next
  case (Cons p pre)
  obtain now r where p: "p = (now, r)" by (cases p)
  with Cons.prems have "r = Idle" and "now - st < 5"
    by simp_all
  with Cons p show ?case by simp
qed

text \<open>
  The converse of the theorem of C6 for the plain exchange: nothing waiting until a
  well-formed card line arrives in time, then nothing waiting until \<^verbatim>\<open>READY\<close>
  arrives within 2 seconds of the card line. The read returns the plate and the
  balance of the line.
\<close>

theorem read_accepts_card_then_ready:
  assumes "ser_open"
    and "\<forall>p\<in>set pre. snd p = Idle \<and> fst p - start_time < 5"
    and "ti - start_time < 5"
    and "CHR '','' \<in> set (strip ri)" and "\<not> startswith (strip ri) ''[''"
    and "parse_card (strip ri) = Some (plate, balance)"
    and "\<forall>p\<in>set mid. snd p = Idle \<and> fst p - ti < 2"
    and "tj - ti < 2" and "strip rj = ''READY''"
  shows "read_rfid_card ser_open start_time
           (pre @ (ti, Received (Some ri)) # mid @ (tj, Received (Some rj)) # rest)
         = Some (plate, balance)"
proof -
  have "read_loop start_time (Await_ready plate balance ti) (mid @ (tj, Received (Some rj)) # rest)
          = Some (plate, balance)"
    using assms(7-9) by (rule ready_after_idle)
  with assms(2-6)
  have "read_loop start_time Await_card
          (pre @ (ti, Received (Some ri)) # mid @ (tj, Received (Some rj)) # rest)
        = Some (plate, balance)"
    by (rule card_after_idle)
  with assms(1) show ?thesis
    by (simp add: read_rfid_card_def)
qed

theorem read_accepts_card_then_ready_witness:
  "read_rfid_card True 0
     ([(0, Idle)] @ (1, Received (Some ''RAB123C,1000'')) # [(2, Idle)]
        @ (5 / 2, Received (Some ''READY'')) # [])
   = Some (''RAB123C'', 1000)"
proof -
  have s: "strip ''RAB123C,1000'' = ''RAB123C,1000''" and r: "strip ''READY'' = ''READY''"
    by code_simp+
  have c: "CHR '','' \<in> set (strip ''RAB123C,1000'')"
    unfolding s by simp
  have b: "\<not> startswith (strip ''RAB123C,1000'') ''[''"
    unfolding s by (simp add: startswith_def)
  have p: "parse_card (strip ''RAB123C,1000'') = Some (''RAB123C'', 1000)"
    by code_simp
  have pre: "\<forall>p\<in>set [(0::rat, Idle)]. snd p = Idle \<and> fst p - 0 < 5"
    by simp
  have mid: "\<forall>p\<in>set [(2::rat, Idle)]. snd p = Idle \<and> fst p - 1 < 2"
    by simp
  have t1: "(1::rat) - 0 < 5" and t2: "(5 / 2 :: rat) - 1 < 2"
    by simp_all
  from read_accepts_card_then_ready [OF TrueI pre t1 c b p mid t2 r, of "[]"] show ?thesis .
qed

section \<open>The total due\<close>

lemma find_unpaid_total:
  "find_unpaid parse exit_t plate heap i as = Some (found, total_due, es) \<Longrightarrow>
     total_due = sum_list (map (\<lambda>e. fst (snd e)) es)
     \<and> list_all (\<lambda>e. fst (snd e) = amount_due (snd (snd (snd e))) exit_t) es
     \<and> (es \<noteq> [] \<longrightarrow> found)"
proof (induction as arbitrary: i found total_due es)
  case Nil
  then show ?case by simp
next
  case (Cons a as)
  from Cons.prems obtain found' total' es'
    where rest: "find_unpaid parse exit_t plate heap (Suc i) as = Some (found', total', es')"
    by (auto split: option.splits)
  from Cons.IH [OF rest]
  have ih: "total' = sum_list (map (\<lambda>e. fst (snd e)) es')"
    "list_all (\<lambda>e. fst (snd e) = amount_due (snd (snd (snd e))) exit_t) es'"
    "es' \<noteq> [] \<longrightarrow> found'"
    by simp_all
  from Cons.prems rest ih show ?case
    by (auto split: list.splits if_splits option.splits)
qed

text \<open>
  The total the balance is compared with is the sum of the amounts of the entries
  to update, each the amount due of its entry time at the time of settlement.
\<close>

theorem total_due_is_sum_of_entry_fees:
  assumes "scan env rows plate = Scan_ok heap valid_entries found total_due es"
  shows "total_due = sum_list (map (\<lambda>e. fst (snd e)) es)
         \<and> list_all (\<lambda>e. fst (snd e) = amount_due (snd (snd (snd e))) (datetime_now env)) es"
proof -
  from assms have "find_unpaid (strptime env) (datetime_now env) plate heap 0 valid_entries
      = Some (found, total_due, es)"
    by (auto simp: scan_def split: prod.splits option.splits)
  from find_unpaid_total [OF this] show ?thesis
    by simp
qed

theorem total_due_is_sum_of_entry_fees_witness:
  "scan (run_at_1005 Db_ok)
     [CSV_HEADER, [''RAB123C'', ''0'', ''2024-01-01 10:00:00'', ''''],
                  [''RAB123C'', ''0'', ''2024-01-01 10:00:00'', '''']] ''RAB123C''
   = Scan_ok [CSV_HEADER, [''RAB123C'', ''0'', ''2024-01-01 10:00:00'', ''''],
                          [''RAB123C'', ''0'', ''2024-01-01 10:00:00'', '''']]
       [1, 2] True 1000 [(0, 500, 1, 0), (1, 500, 1, 0)]
   \<and> (1000::int) = sum_list (map (\<lambda>e. fst (snd e)) [(0::nat, 500::int, 1::int, 0::int), (1, 500, 1, 0)])"
proof -
  have sc: "scan (run_at_1005 Db_ok)
     [CSV_HEADER, [''RAB123C'', ''0'', ''2024-01-01 10:00:00'', ''''],
                  [''RAB123C'', ''0'', ''2024-01-01 10:00:00'', '''']] ''RAB123C''
   = Scan_ok [CSV_HEADER, [''RAB123C'', ''0'', ''2024-01-01 10:00:00'', ''''],
                          [''RAB123C'', ''0'', ''2024-01-01 10:00:00'', '''']]
       [1, 2] True 1000 [(0, 500, 1, 0), (1, 500, 1, 0)]"
    by code_simp
  from total_due_is_sum_of_entry_fees [OF sc] sc show ?thesis
    by simp
qed

end
